theory Spec2Isabelle
  imports Complex_Main "HOL-Library.AList" "HOL-Library.Multiset"
begin

section \<open>Go values shared by the packages\<close>

text \<open>
  Go's \<^verbatim>\<open>int\<close> is taken to be 64 bits wide. Arithmetic on it is done on \<^typ>\<open>int\<close> and
  wrapped into the signed 64-bit range by \<open>wrap64\<close>. A run-time panic is a value of
  \<open>go_panic\<close>. Strings are byte strings.
\<close>

definition wrap64 :: "int \<Rightarrow> int" where
  "wrap64 x = signed_take_bit 63 x"

datatype go_panic = SliceBoundsOutOfRange

datatype ('e, 'a) outcome = Panicked go_panic | Failed 'e | Returned 'a

definition HasPrefix :: "string \<Rightarrow> string \<Rightarrow> bool" where
  "HasPrefix s p = (take (length p) s = p)"

definition HasSuffix :: "string \<Rightarrow> string \<Rightarrow> bool" where
  "HasSuffix s p = (length p \<le> length s \<and> drop (length s - length p) s = p)"

definition TrimSuffix :: "string \<Rightarrow> string \<Rightarrow> string" where
  "TrimSuffix s p = (if HasSuffix s p then take (length s - length p) s else s)"

fun Contains :: "string \<Rightarrow> string \<Rightarrow> bool" where
  "Contains [] sub = (sub = [])"
| "Contains (c # cs) sub = (HasPrefix (c # cs) sub \<or> Contains cs sub)"

text \<open>
  The idiom \<^verbatim>\<open>if len(xs) > limit { xs = xs[:limit] }\<close>: the slice expression panics when
  \<^verbatim>\<open>limit\<close> is negative.
\<close>

definition truncateTo :: "'a list \<Rightarrow> int \<Rightarrow> go_panic + 'a list" where
  "truncateTo xs limit =
     (if int (length xs) > limit
      then (if limit < 0 then Inl SliceBoundsOutOfRange else Inr (take (nat limit) xs))
      else Inr xs)"

section \<open>package indexer: search results\<close>

text \<open>
  \<^verbatim>\<open>SearchResult\<close> of the indexer package. \<^verbatim>\<open>Score\<close> is a \<^verbatim>\<open>float32\<close> in the source; here
  it is a rational number and the arithmetic on it is exact (rounding, infinities and NaN
  are outside the model). The \<^verbatim>\<open>Metadata\<close> map is carried along untouched by every function
  modelled below and is left out.
\<close>

record SearchResult =
  DocumentID :: string
  ChunkID :: string
  Score :: rat
  Text :: string

subsection \<open>combineResults\<close>

text \<open>
  \<^verbatim>\<open>resultMap\<close> maps a chunk id to (a pointer to) a result; it is an association list with
  one entry per key. The slices handed to \<^verbatim>\<open>combineResults\<close> hold pointers; every element
  of the lists below is an object of its own, as \<^verbatim>\<open>searchChroma\<close> and
  \<^verbatim>\<open>searchElasticsearch\<close>, the only producers, allocate one per hit. The first loop body is
  \<open>addVectorResult\<close>, the second \<open>addBM25Result\<close>; the constants \<^verbatim>\<open>0.7\<close> and \<^verbatim>\<open>0.3\<close> are
  the rationals \<open>7/10\<close> and \<open>3/10\<close>.
\<close>

type_synonym resultMap = "(string \<times> SearchResult) list"

definition addVectorResult :: "resultMap \<Rightarrow> SearchResult \<Rightarrow> resultMap" where
  "addVectorResult m result =
     (let key = ChunkID result in
      case map_of m key of
        Some existing \<Rightarrow>
          AList.update key
            (existing\<lparr>Score := Score existing * (3 / 10) + Score result * (7 / 10)\<rparr>) m
      | None \<Rightarrow> AList.update key (result\<lparr>Score := Score result * (7 / 10)\<rparr>) m)"

definition addBM25Result :: "resultMap \<Rightarrow> SearchResult \<Rightarrow> resultMap" where
  "addBM25Result m result =
     (let key = ChunkID result in
      case map_of m key of
        Some existing \<Rightarrow>
          AList.update key
            (existing\<lparr>Score := Score existing * (7 / 10) + Score result * (3 / 10)\<rparr>) m
      | None \<Rightarrow> AList.update key (result\<lparr>Score := Score result * (3 / 10)\<rparr>) m)"

definition mergeResults :: "SearchResult list \<Rightarrow> SearchResult list \<Rightarrow> resultMap" where
  "mergeResults vectorResults bm25Results =
     foldl addBM25Result (foldl addVectorResult [] vectorResults) bm25Results"

text \<open>
  The sort is the source's pair of nested loops: for every \<open>i\<close>, every \<open>j > i\<close> is compared
  with position \<open>i\<close> and swapped into it when its score is larger. The length of the slice
  does not change, so the loop bounds are those of the list at loop entry.
\<close>

definition swapIfLess :: "nat \<Rightarrow> nat \<Rightarrow> SearchResult list \<Rightarrow> SearchResult list" where
  "swapIfLess i j xs =
     (if Score (xs ! i) < Score (xs ! j) then xs[i := xs ! j, j := xs ! i] else xs)"

definition sortInner :: "nat \<Rightarrow> SearchResult list \<Rightarrow> SearchResult list" where
  "sortInner i xs = fold (swapIfLess i) [Suc i..<length xs] xs"

definition sortByScore :: "SearchResult list \<Rightarrow> SearchResult list" where
  "sortByScore xs = fold sortInner [0..<length xs] xs"

text \<open>
  Go visits the entries of a map in an unspecified order. The order in which
  \<^verbatim>\<open>for _, result := range resultMap\<close> appends the entries is the parameter \<open>rangeOrder\<close>,
  which rearranges the list of the map's values; \<open>visits_each_once\<close> says that it is an
  order of iteration: every entry is visited exactly once.
\<close>

type_synonym range_order = "SearchResult list \<Rightarrow> SearchResult list"

definition visits_each_once :: "range_order \<Rightarrow> bool" where
  "visits_each_once rangeOrder = (\<forall>xs. mset (rangeOrder xs) = mset xs)"

definition fusedSet :: "range_order \<Rightarrow> SearchResult list \<Rightarrow> SearchResult list \<Rightarrow> SearchResult list" where
  "fusedSet rangeOrder vectorResults bm25Results =
     rangeOrder (map snd (mergeResults vectorResults bm25Results))"

definition combineResults ::
  "range_order \<Rightarrow> SearchResult list \<Rightarrow> SearchResult list \<Rightarrow> int \<Rightarrow> go_panic + SearchResult list" where
  "combineResults rangeOrder vectorResults bm25Results limit =
     truncateTo (sortByScore (fusedSet rangeOrder vectorResults bm25Results)) limit"

definition sorted_desc :: "SearchResult list \<Rightarrow> bool" where
  "sorted_desc xs = sorted_wrt (\<lambda>x y. Score y \<le> Score x) xs"

section \<open>package retriever: Retrieve\<close>

text \<open>
  \<^verbatim>\<open>Retrieve\<close> of \<^verbatim>\<open>hybridRetriever\<close>. The indexer behind the \<^verbatim>\<open>Indexer\<close> interface is the
  parameter \<open>search\<close> (it returns an error message or a result list), the optional reranker
  is \<open>reranker\<close> (\<open>None\<close> for the nil interface). The goroutine started for the reranker
  only prints one line; the line it prints is the second component of the result, the
  first is what the caller of \<^verbatim>\<open>Retrieve\<close> gets. The reranker is a function of its
  arguments: it does not write to the slice it is handed (the repository's \<^verbatim>\<open>llmReranker\<close>
  builds a new slice).
\<close>

datatype rerank_log = RerankFailed string | RerankCompleted string

type_synonym indexer_search = "string \<Rightarrow> int \<Rightarrow> string + SearchResult list"
type_synonym reranker = "string \<Rightarrow> SearchResult list \<Rightarrow> string + SearchResult list"

definition spawn_rerank :: "reranker option \<Rightarrow> string \<Rightarrow> SearchResult list \<Rightarrow> rerank_log option" where
  "spawn_rerank reranker query results =
     (case reranker of
        None \<Rightarrow> None
      | Some rr \<Rightarrow>
          if length results > 0
          then Some (case rr query results of
                       Inl err \<Rightarrow> RerankFailed err
                     | Inr _ \<Rightarrow> RerankCompleted query)
          else None)"

definition Retrieve ::
  "indexer_search \<Rightarrow> reranker option \<Rightarrow> string \<Rightarrow> int
     \<Rightarrow> (string, SearchResult list) outcome \<times> rerank_log option" where
  "Retrieve search reranker query limit =
     (case search query (wrap64 (limit * 2)) of
        Inl err \<Rightarrow> (Failed (''failed to search index: '' @ err), None)
      | Inr results \<Rightarrow>
          let bg = spawn_rerank reranker query results in
          (case truncateTo results limit of
             Inl p \<Rightarrow> (Panicked p, bg)
           | Inr kept \<Rightarrow> (Returned kept, bg)))"

section \<open>package server: the limit handed to Retrieve\<close>

text \<open>
  The part of \<^verbatim>\<open>handleSearch\<close> between decoding the request and calling \<^verbatim>\<open>Retrieve\<close>:
  \<open>handleSearch_limit\<close> maps the decoded \<^verbatim>\<open>req.Limit\<close> to the limit that is passed on.
\<close>

definition handleSearch_limit :: "int \<Rightarrow> int" where
  "handleSearch_limit reqLimit =
     (let l = (if reqLimit = 0 then 10 else reqLimit)
      in if l > 100 then 100 else l)"

definition handleSearch ::
  "indexer_search \<Rightarrow> reranker option \<Rightarrow> string \<Rightarrow> int
     \<Rightarrow> (string, SearchResult list) outcome \<times> rerank_log option" where
  "handleSearch search reranker query reqLimit =
     Retrieve search reranker query (handleSearch_limit reqLimit)"

section \<open>package crawler\<close>

subsection \<open>Configuration and NewCrawler\<close>

text \<open>
  \<^verbatim>\<open>Config\<close> of the crawler package. \<^verbatim>\<open>RateLimit\<close> is a \<^verbatim>\<open>float64\<close> in the source; here it is a
  rational number, and \<^verbatim>\<open>1.0/c.config.RateLimit\<close> is the exact quotient. \<open>NewCrawler_config\<close>
  is the defaulting that \<^verbatim>\<open>NewCrawler\<close> applies to the configuration it is given.
\<close>

record Config =
  MaxWorkers :: int
  RateLimit :: rat
  MaxPageSize :: int
  UserAgent :: string
  Timeout :: int
  RespectRobots :: bool


subsection \<open>rateLimit\<close>

text \<open>
  A \<^verbatim>\<open>time.Duration\<close> is a number of nanoseconds in an \<^verbatim>\<open>int64\<close>. The conversion
  \<^verbatim>\<open>time.Duration(x)\<close> of a float truncates towards zero; Go leaves its result
  implementation-dependent when the truncated value does not fit, which is \<open>None\<close> here.
  \<open>tickerInterval\<close> is the interval \<^verbatim>\<open>rateLimit\<close> computes for a new ticker.
\<close>

definition Second :: int where
  "Second = 1000000000"








subsection \<open>fetchAndParse\<close>

text \<open>
  The HTTP client, the parser and the normalizer are reached through \<^verbatim>\<open>c.client\<close>,
  \<^verbatim>\<open>c.parser\<close> and \<^verbatim>\<open>c.normalizer\<close>; they are the fields of \<open>fetch_env\<close>. \<open>doRequest\<close> is building
  and sending the GET request (an error message when either fails), URLs are their strings.
\<close>

record Response =
  StatusCode :: int
  ContentType :: string
  Body :: string

record ParsedContent =
  parsedTitle :: string
  parsedText :: string
  parsedMetaDesc :: string
  parsedLinks :: "string list"

record Page =
  pageURL :: string
  Title :: string
  Content :: string
  MetaDesc :: string
  Links :: "string list"
  ContentHash :: string
  Depth :: int

datatype fetch_error =
    RequestError string
  | HTTPStatus int
  | UnsupportedContentType string
  | ParseError string

record fetch_env =
  doRequest :: "string \<Rightarrow> string + Response"
  ParseHTML :: "string \<Rightarrow> string \<Rightarrow> string + ParsedContent"
  NormalizeLink :: "string \<Rightarrow> string \<Rightarrow> string option"
  IsValidLink :: "string \<Rightarrow> bool"
  sha256hex :: "string \<Rightarrow> string"

definition StatusOK :: int where
  "StatusOK = 200"

definition is2xx :: "int \<Rightarrow> bool" where
  "is2xx code = (200 \<le> code \<and> code < 300)"

fun normalizeLinks :: "fetch_env \<Rightarrow> string \<Rightarrow> string list \<Rightarrow> string list" where
  "normalizeLinks env targetURL [] = []"
| "normalizeLinks env targetURL (link # links) =
     (case NormalizeLink env link targetURL of
        Some normalized \<Rightarrow>
          if IsValidLink env normalized
          then normalized # normalizeLinks env targetURL links
          else normalizeLinks env targetURL links
      | None \<Rightarrow> normalizeLinks env targetURL links)"

definition fetchAndParse :: "fetch_env \<Rightarrow> Config \<Rightarrow> string \<Rightarrow> fetch_error + Page" where
  "fetchAndParse env cfg targetURL =
     (case doRequest env targetURL of
        Inl err \<Rightarrow> Inl (RequestError err)
      | Inr resp \<Rightarrow>
          if StatusCode resp \<noteq> StatusOK then Inl (HTTPStatus (StatusCode resp))
          else if \<not> Contains (ContentType resp) ''text/html''
          then Inl (UnsupportedContentType (ContentType resp))
          else (case ParseHTML env (take (nat (MaxPageSize cfg)) (Body resp)) targetURL of
                  Inl err \<Rightarrow> Inl (ParseError err)
                | Inr parsed \<Rightarrow>
                    Inr \<lparr>pageURL = targetURL,
                         Title = parsedTitle parsed,
                         Content = parsedText parsed,
                         MetaDesc = parsedMetaDesc parsed,
                         Links = normalizeLinks env targetURL (parsedLinks parsed),
                         ContentHash = sha256hex env (parsedText parsed),
                         Depth = 0\<rparr>))"

subsection \<open>robots.txt: parseRobotsTxt, CanCrawl, GetRobots\<close>

text \<open>
  \<^verbatim>\<open>strings.TrimSpace\<close> and \<^verbatim>\<open>strings.ToLower\<close> on ASCII text, and \<^verbatim>\<open>strconv.Atoi\<close>.
\<close>

definition isSpace :: "char \<Rightarrow> bool" where
  "isSpace c = (c \<in> set [CHR 0x09, CHR 0x0A, CHR 0x0B, CHR 0x0C, CHR 0x0D, CHR 0x20])"

definition TrimSpace :: "string \<Rightarrow> string" where
  "TrimSpace s = rev (dropWhile isSpace (rev (dropWhile isSpace s)))"

definition toLowerChar :: "char \<Rightarrow> char" where
  "toLowerChar c =
     (let n = (of_char c :: nat) in if 65 \<le> n \<and> n \<le> 90 then char_of (n + 32) else c)"

definition ToLower :: "string \<Rightarrow> string" where
  "ToLower s = map toLowerChar s"

definition isDigit :: "char \<Rightarrow> bool" where
  "isDigit c = (48 \<le> (of_char c :: nat) \<and> (of_char c :: nat) \<le> 57)"

definition digitsValue :: "string \<Rightarrow> int" where
  "digitsValue ds = foldl (\<lambda>acc c. 10 * acc + (int (of_char c) - 48)) 0 ds"

definition Atoi :: "string \<Rightarrow> int option" where
  "Atoi s =
     (let neg = HasPrefix s ''-'';
          ds = (if HasPrefix s ''-'' \<or> HasPrefix s ''+'' then drop 1 s else s);
          v = (if neg then - digitsValue ds else digitsValue ds)
      in if ds = [] \<or> \<not> list_all isDigit ds then None
         else if - (2 ^ 63) \<le> v \<and> v < 2 ^ 63 then Some v
         else None)"

text \<open>
  \<^verbatim>\<open>Robots\<close>, with \<^verbatim>\<open>CrawlDelay\<close> in nanoseconds. The body of a response is read through a
  \<^verbatim>\<open>bufio.Scanner\<close>: \<open>bodyLines\<close> are the lines it yields and \<open>scanError\<close> is the error
  \<^verbatim>\<open>scanner.Err()\<close> reports afterwards, if any. \<open>parseLine\<close> is the body of the scanning loop;
  its state is the policy built so far and \<^verbatim>\<open>inUserAgentSection\<close>.
\<close>

record Robots =
  robotsUserAgent :: string
  Disallow :: "string list"
  CrawlDelay :: int

record robots_body =
  bodyLines :: "string list"
  scanError :: "string option"

definition permissive :: "string \<Rightarrow> Robots" where
  "permissive userAgent = \<lparr>robotsUserAgent = userAgent, Disallow = [], CrawlDelay = 0\<rparr>"

definition parseLine :: "string \<Rightarrow> Robots \<times> bool \<Rightarrow> string \<Rightarrow> Robots \<times> bool" where
  "parseLine userAgent st rawLine =
     (let robots = fst st; inUserAgentSection = snd st; line = TrimSpace rawLine in
      if line = [] \<or> HasPrefix line ''#'' then st
      else if HasPrefix (ToLower line) ''user-agent:''
      then (let currentUserAgent = TrimSpace (drop 11 line)
            in (robots, currentUserAgent = ''*'' \<or> currentUserAgent = userAgent))
      else if \<not> inUserAgentSection then st
      else if HasPrefix (ToLower line) ''disallow:''
      then (let path = TrimSpace (drop 9 line)
            in if path \<noteq> [] then (robots\<lparr>Disallow := Disallow robots @ [path]\<rparr>, inUserAgentSection)
               else st)
      else if HasPrefix (ToLower line) ''crawl-delay:''
      then (case Atoi (TrimSpace (drop 12 line)) of
              Some delay \<Rightarrow> (robots\<lparr>CrawlDelay := wrap64 (delay * Second)\<rparr>, inUserAgentSection)
            | None \<Rightarrow> st)
      else st)"

definition parseRobotsTxt :: "robots_body \<Rightarrow> string \<Rightarrow> Robots \<times> string option" where
  "parseRobotsTxt body userAgent =
     (fst (foldl (parseLine userAgent) (permissive userAgent, False) (bodyLines body)),
      scanError body)"

definition CanCrawl :: "Robots \<Rightarrow> string \<Rightarrow> bool" where
  "CanCrawl r urlPath = list_all (\<lambda>disallowPath. \<not> HasPrefix urlPath disallowPath) (Disallow r)"

text \<open>
  \<^verbatim>\<open>GetRobots\<close> works on the cache and on the network. The network is \<open>httpGet\<close>, the answer of
  \<^verbatim>\<open>client.Get\<close> to a URL (an error message, or a response body whatever its status code,
  which \<^verbatim>\<open>GetRobots\<close> does not look at). The state is the cache together with the list of
  URLs requested so far. \<^verbatim>\<open>GetRobots\<close> always returns a nil error, so the model returns the
  policy only. \<open>GetRobots_all\<close> is a sequence of calls, one per domain of the list.
\<close>

type_synonym http_get = "string \<Rightarrow> string + robots_body"

record RobotsCache =
  cache :: "string \<rightharpoonup> Robots"
  requested :: "string list"

definition NewRobotsCache :: RobotsCache where
  "NewRobotsCache = \<lparr>cache = Map.empty, requested = []\<rparr>"

definition robotsURL :: "string \<Rightarrow> string" where
  "robotsURL domain = ''https://'' @ domain @ ''/robots.txt''"

definition GetRobots :: "http_get \<Rightarrow> RobotsCache \<Rightarrow> string \<Rightarrow> string \<Rightarrow> Robots \<times> RobotsCache" where
  "GetRobots httpGet rc domain userAgent =
     (case cache rc domain of
        Some robots \<Rightarrow> (robots, rc)
      | None \<Rightarrow>
          let rc1 = rc\<lparr>requested := requested rc @ [robotsURL domain]\<rparr> in
          (case httpGet (robotsURL domain) of
             Inl err \<Rightarrow> (permissive userAgent, rc1)
           | Inr body \<Rightarrow>
               (case parseRobotsTxt body userAgent of
                  (robots, Some err) \<Rightarrow> (permissive userAgent, rc1)
                | (robots, None) \<Rightarrow> (robots, rc1\<lparr>cache := (cache rc1)(domain \<mapsto> robots)\<rparr>))))"

fun GetRobots_all :: "http_get \<Rightarrow> string \<Rightarrow> RobotsCache \<Rightarrow> string list \<Rightarrow> RobotsCache" where
  "GetRobots_all httpGet userAgent rc [] = rc"
| "GetRobots_all httpGet userAgent rc (domain # domains) =
     GetRobots_all httpGet userAgent (snd (GetRobots httpGet rc domain userAgent)) domains"

section \<open>package parser: Normalize\<close>

text \<open>
  The fields of \<^verbatim>\<open>url.URL\<close> that \<^verbatim>\<open>Normalize\<close> reads and writes. \<open>splitHostPort\<close>, \<open>Port\<close> and
  \<open>Hostname\<close> follow \<^verbatim>\<open>net/url\<close>: the port is what follows the last colon of the host when
  that is empty or all digits, and the host name loses enclosing square brackets.
  \<open>Normalize\<close> is the source's function from the statement after \<^verbatim>\<open>url.Parse\<close> and
  \<^verbatim>\<open>ResolveReference\<close> on: its argument is the parsed and resolved URL. The re-encoding of
  the query, \<^verbatim>\<open>u.Query().Encode()\<close>, is the parameter \<open>encodeQuery\<close>.
\<close>

record URL =
  Scheme :: string
  Host :: string
  Path :: string
  RawQuery :: string
  Fragment :: string

definition validOptionalPort :: "string \<Rightarrow> bool" where
  "validOptionalPort port =
     (port = [] \<or> (HasPrefix port '':'' \<and> list_all isDigit (drop 1 port)))"

fun lastIndexByte :: "string \<Rightarrow> char \<Rightarrow> nat option" where
  "lastIndexByte [] c = None"
| "lastIndexByte (x # xs) c =
     (case lastIndexByte xs c of
        Some i \<Rightarrow> Some (Suc i)
      | None \<Rightarrow> if x = c then Some 0 else None)"

definition splitHostPort :: "string \<Rightarrow> string \<times> string" where
  "splitHostPort hostPort =
     (let hp = (case lastIndexByte hostPort (CHR '':'') of
                  Some colon \<Rightarrow>
                    if validOptionalPort (drop colon hostPort)
                    then (take colon hostPort, drop (Suc colon) hostPort)
                    else (hostPort, [])
                | None \<Rightarrow> (hostPort, []));
          host = fst hp
      in if HasPrefix host ''['' \<and> HasSuffix host '']''
         then (take (length host - 2) (drop 1 host), snd hp)
         else hp)"

definition Port :: "URL \<Rightarrow> string" where
  "Port u = snd (splitHostPort (Host u))"

definition Hostname :: "URL \<Rightarrow> string" where
  "Hostname u = fst (splitHostPort (Host u))"

definition Normalize :: "(string \<Rightarrow> string) \<Rightarrow> URL \<Rightarrow> URL" where
  "Normalize encodeQuery u =
     (let u1 = (if Scheme u = ''http'' then u\<lparr>Scheme := ''https''\<rparr> else u);
          u2 = u1\<lparr>Host := ToLower (Host u1)\<rparr>;
          u3 = (if Scheme u2 = ''https'' \<and> Port u2 = ''443'' then u2\<lparr>Host := Hostname u2\<rparr>
                else if Scheme u2 = ''http'' \<and> Port u2 = ''80'' then u2\<lparr>Host := Hostname u2\<rparr>
                else u2);
          u4 = u3\<lparr>Path := TrimSuffix (Path u3) ''/''\<rparr>;
          u5 = (if Path u4 = [] then u4\<lparr>Path := ''/''\<rparr> else u4);
          u6 = u5\<lparr>Fragment := []\<rparr>
      in u6\<lparr>RawQuery := encodeQuery (RawQuery u6)\<rparr>)"

section \<open>package crawler: Crawl and its workers\<close>

text \<open>
  A crawl is the goroutine started by \<^verbatim>\<open>Crawl\<close>, the workers it starts, and the reader of
  the two output channels. Their interleavings are the runs of a transition system: an
  \<open>event\<close> is one atomic action of one of them, \<open>step\<close> is its effect on the shared state
  and on the acting worker's position in \<^verbatim>\<open>worker\<close> (\<open>None\<close> when the action cannot happen
  in that state), and \<open>run\<close> performs a schedule of events. URLs are their strings, as in
  the keys of \<^verbatim>\<open>visited\<close>.

  A worker is at one of these places of its loop:
  \<^item> \<open>Receiving\<close>: at the \<^verbatim>\<open>select\<close> on \<^verbatim>\<open>ctx.Done()\<close> and \<^verbatim>\<open>urlChan\<close>;
  \<^item> \<open>Received t\<close>: it holds \<^verbatim>\<open>urlData\<close> and is before the read of \<^verbatim>\<open>visited\<close> under \<^verbatim>\<open>RLock\<close>;
  \<^item> \<open>Unvisited t\<close>: after \<^verbatim>\<open>RUnlock\<close>, before \<^verbatim>\<open>Lock\<close> and the write \<^verbatim>\<open>visited[urlStr] = true\<close>;
  \<^item> \<open>Claimed t\<close>: after \<^verbatim>\<open>Unlock\<close>, before the robots check;
  \<^item> \<open>Fetching t\<close>: before \<^verbatim>\<open>rateLimit\<close> and \<^verbatim>\<open>fetchAndParse\<close>;
  \<^item> \<open>SendingError t\<close> and \<open>SendingPage t links\<close>: before the send on \<^verbatim>\<open>errorChan\<close>, on \<^verbatim>\<open>pageChan\<close>;
  \<^item> \<open>Enqueuing depth links\<close>: in the loop over \<^verbatim>\<open>page.Links\<close>, \<open>links\<close> still to send;
  \<^item> \<open>Exited\<close>: returned.
  What \<^verbatim>\<open>canCrawl\<close> and \<^verbatim>\<open>fetchAndParse\<close> answer is not fixed by the crawler: the answer is
  part of the event (for a fetch, the error or the links of the page). The field \<open>fetched\<close>
  of the state lists the URLs on which \<^verbatim>\<open>fetchAndParse\<close> was called, in the order of the
  calls; \<open>urlChan\<close>, \<open>pageChan\<close> and \<open>errorChan\<close> are the contents of the buffered channels
  (of capacity 1000, 100 and 100).
\<close>

type_synonym urlWithDepth = "string \<times> int"

datatype worker =
    Receiving
  | Received urlWithDepth
  | Unvisited urlWithDepth
  | Claimed urlWithDepth
  | Fetching urlWithDepth
  | SendingError urlWithDepth
  | SendingPage urlWithDepth "string list"
  | Enqueuing int "string list"
  | Exited

record crawl =
  urlChan :: "urlWithDepth list"
  urlChanClosed :: bool
  visited :: "string set"
  workers :: "worker list"
  fetched :: "string list"
  pageChan :: "urlWithDepth list"
  errorChan :: "string list"
  seeded :: bool
  ctxDone :: bool

record crawl_args =
  startURL :: string
  maxDepth :: int
  maxWorkers :: int
  respectRobots :: bool

datatype event =
    Seed
  | CloseUrlChan
  | Cancel
  | ReadPage
  | ReadError
  | Receive nat
  | ReceiveClosed nat
  | CtxDone nat
  | CheckVisited nat
  | MarkVisited nat
  | CheckRobots nat bool
  | Fetch nat "fetch_error + string list"
  | SendError nat
  | SendPage nat
  | Enqueue nat

definition init :: "crawl_args \<Rightarrow> crawl" where
  "init a =
     \<lparr>urlChan = [], urlChanClosed = False, visited = {},
      workers = replicate (nat (maxWorkers a)) Receiving,
      fetched = [], pageChan = [], errorChan = [], seeded = False, ctxDone = False\<rparr>"

definition workerAt :: "crawl \<Rightarrow> nat \<Rightarrow> worker option" where
  "workerAt s i = (if i < length (workers s) then Some (workers s ! i) else None)"

definition goto :: "crawl \<Rightarrow> nat \<Rightarrow> worker \<Rightarrow> crawl" where
  "goto s i w = s\<lparr>workers := (workers s)[i := w]\<rparr>"

fun step :: "crawl_args \<Rightarrow> crawl \<Rightarrow> event \<Rightarrow> crawl option" where
  "step a s Seed =
     (if \<not> seeded s \<and> length (urlChan s) < 1000
      then Some (s\<lparr>urlChan := urlChan s @ [(startURL a, 0)], seeded := True\<rparr>)
      else None)"
| "step a s CloseUrlChan =
     (if seeded s \<and> \<not> urlChanClosed s \<and> list_all (\<lambda>w. w = Exited) (workers s)
      then Some (s\<lparr>urlChanClosed := True\<rparr>)
      else None)"
| "step a s Cancel = Some (s\<lparr>ctxDone := True\<rparr>)"
| "step a s ReadPage =
     (case pageChan s of [] \<Rightarrow> None | page # pages \<Rightarrow> Some (s\<lparr>pageChan := pages\<rparr>))"
| "step a s ReadError =
     (case errorChan s of [] \<Rightarrow> None | err # errs \<Rightarrow> Some (s\<lparr>errorChan := errs\<rparr>))"
| "step a s (Receive i) =
     (case (workerAt s i, urlChan s) of
        (Some Receiving, urlData # rest) \<Rightarrow> Some (goto (s\<lparr>urlChan := rest\<rparr>) i (Received urlData))
      | _ \<Rightarrow> None)"
| "step a s (ReceiveClosed i) =
     (case (workerAt s i, urlChan s) of
        (Some Receiving, []) \<Rightarrow> if urlChanClosed s then Some (goto s i Exited) else None
      | _ \<Rightarrow> None)"
| "step a s (CtxDone i) =
     (case workerAt s i of
        Some Receiving \<Rightarrow> if ctxDone s then Some (goto s i Exited) else None
      | Some (Enqueuing depth links) \<Rightarrow> if ctxDone s then Some (goto s i Exited) else None
      | _ \<Rightarrow> None)"
| "step a s (CheckVisited i) =
     (case workerAt s i of
        Some (Received (url, depth)) \<Rightarrow>
          if url \<in> visited s then Some (goto s i Receiving)
          else Some (goto s i (Unvisited (url, depth)))
      | _ \<Rightarrow> None)"
| "step a s (MarkVisited i) =
     (case workerAt s i of
        Some (Unvisited (url, depth)) \<Rightarrow>
          Some (goto (s\<lparr>visited := insert url (visited s)\<rparr>) i (Claimed (url, depth)))
      | _ \<Rightarrow> None)"
| "step a s (CheckRobots i canCrawl) =
     (case workerAt s i of
        Some (Claimed t) \<Rightarrow>
          if respectRobots a \<and> \<not> canCrawl then Some (goto s i Receiving)
          else Some (goto s i (Fetching t))
      | _ \<Rightarrow> None)"
| "step a s (Fetch i result) =
     (case workerAt s i of
        Some (Fetching (url, depth)) \<Rightarrow>
          (case result of
             Inl err \<Rightarrow> Some (goto (s\<lparr>fetched := fetched s @ [url]\<rparr>) i (SendingError (url, depth)))
           | Inr links \<Rightarrow>
               Some (goto (s\<lparr>fetched := fetched s @ [url]\<rparr>) i (SendingPage (url, depth) links)))
      | _ \<Rightarrow> None)"
| "step a s (SendError i) =
     (case workerAt s i of
        Some (SendingError (url, depth)) \<Rightarrow>
          if length (errorChan s) < 100
          then Some (goto (s\<lparr>errorChan := errorChan s @ [url]\<rparr>) i Receiving)
          else None
      | _ \<Rightarrow> None)"
| "step a s (SendPage i) =
     (case workerAt s i of
        Some (SendingPage (url, depth) links) \<Rightarrow>
          if length (pageChan s) < 100
          then Some (goto (s\<lparr>pageChan := pageChan s @ [(url, depth)]\<rparr>) i
                       (if depth < maxDepth a \<and> links \<noteq> [] then Enqueuing depth links
                        else Receiving))
          else None
      | _ \<Rightarrow> None)"
| "step a s (Enqueue i) =
     (case workerAt s i of
        Some (Enqueuing depth (link # links)) \<Rightarrow>
          if length (urlChan s) < 1000
          then Some (goto (s\<lparr>urlChan := urlChan s @ [(link, depth + 1)]\<rparr>) i
                       (if links = [] then Receiving else Enqueuing depth links))
          else None
      | _ \<Rightarrow> None)"

fun run :: "crawl_args \<Rightarrow> crawl \<Rightarrow> event list \<Rightarrow> crawl option" where
  "run a s [] = Some s"
| "run a s (e # es) = (case step a s e of None \<Rightarrow> None | Some s' \<Rightarrow> run a s' es)"

text \<open>
  The targets a state holds: those queued in \<^verbatim>\<open>urlChan\<close> and the one each worker is
  processing. \<open>processing w\<close> is the target worker \<open>w\<close> received and has not finished with.
\<close>

fun processing :: "worker \<Rightarrow> urlWithDepth option" where
  "processing (Received t) = Some t"
| "processing (Unvisited t) = Some t"
| "processing (Claimed t) = Some t"
| "processing (Fetching t) = Some t"
| "processing (SendingError t) = Some t"
| "processing (SendingPage t links) = Some t"
| "processing w = None"

section \<open>Example inputs\<close>

text \<open>Concrete values used where a theorem is evaluated at an input.\<close>

definition hit :: "string \<Rightarrow> rat \<Rightarrow> SearchResult" where
  "hit chunk score = \<lparr>DocumentID = ''doc'', ChunkID = chunk, Score = score, Text = ''text''\<rparr>"

definition noHits :: indexer_search where
  "noHits query limit = Inr []"

definition asStored :: range_order where
  "asStored values = values"

definition answering :: "Response \<Rightarrow> fetch_env" where
  "answering resp =
     \<lparr>doRequest = (\<lambda>url. Inr resp), ParseHTML = (\<lambda>body base. Inl ''unexpected EOF''),
      NormalizeLink = (\<lambda>raw base. None), IsValidLink = (\<lambda>u. False), sha256hex = (\<lambda>t. [])\<rparr>"

text \<open>The configuration that \<^verbatim>\<open>LoadConfig\<close> yields when no environment variable is set.\<close>

definition loadedConfig :: Config where
  "loadedConfig =
     \<lparr>MaxWorkers = 5, RateLimit = 1 / 10, MaxPageSize = 1024 * 1024,
      UserAgent = ''ai-search/1.0'', Timeout = 30, RespectRobots = False\<rparr>"


definition unreachable :: http_get where
  "unreachable url = Inl ''dial tcp: connection refused''"

definition robotsFile :: robots_body where
  "robotsFile =
     \<lparr>bodyLines = [''# robots.txt'', ''User-agent: *'', ''Disallow: /private '', ''Crawl-delay: 2'',
                   [], ''User-agent: otherbot'', ''Disallow: /''],
      scanError = None\<rparr>"

definition serving :: http_get where
  "serving url =
     (if url = ''https://example.com/robots.txt'' then Inr robotsFile else Inl ''no such host'')"

text \<open>The URL \<^verbatim>\<open>https://example.com/a//\<close> as \<^verbatim>\<open>url.Parse\<close> returns it.\<close>

definition twoSlashes :: URL where
  "twoSlashes =
     \<lparr>Scheme = ''https'', Host = ''example.com'', Path = ''/a//'', RawQuery = [], Fragment = []\<rparr>"

text \<open>
  Crawls: their arguments, schedules, and the states two of the schedules lead to.
\<close>

definition seedURL :: string where "seedURL = ''https://example.com/''"

definition aboutURL :: string where "aboutURL = ''https://example.com/about''"

definition twoWorkers :: crawl_args where
  "twoWorkers = \<lparr>startURL = seedURL, maxDepth = 1, maxWorkers = 2, respectRobots = False\<rparr>"

definition racingSchedule :: "event list" where
  "racingSchedule =
     [Seed, Receive 0, CheckVisited 0, MarkVisited 0, CheckRobots 0 True,
      Fetch 0 (Inr [aboutURL, aboutURL]), SendPage 0, Enqueue 0, Enqueue 0,
      Receive 0, Receive 1, CheckVisited 0, CheckVisited 1, MarkVisited 0, MarkVisited 1,
      CheckRobots 0 True, CheckRobots 1 True, Fetch 0 (Inr []), Fetch 1 (Inr [])]"

definition negativeDepth :: crawl_args where
  "negativeDepth = \<lparr>startURL = seedURL, maxDepth = - 1, maxWorkers = 1, respectRobots = False\<rparr>"

definition zeroDepth :: crawl_args where
  "zeroDepth = \<lparr>startURL = seedURL, maxDepth = 0, maxWorkers = 2, respectRobots = True\<rparr>"

definition seedPageSchedule :: "event list" where
  "seedPageSchedule =
     [Seed, Receive 1, CheckVisited 1, MarkVisited 1, CheckRobots 1 True,
      Fetch 1 (Inr [aboutURL, ''https://example.com/b'', ''https://example.com/c''])]"

definition seedPageFetched :: crawl where
  "seedPageFetched =
     \<lparr>urlChan = [], urlChanClosed = False, visited = {seedURL},
      workers = [Receiving,
                 SendingPage (seedURL, 0) [aboutURL, ''https://example.com/b'', ''https://example.com/c'']],
      fetched = [seedURL], pageChan = [], errorChan = [], seeded = True, ctxDone = False\<rparr>"

definition seedPageSent :: crawl where
  "seedPageSent =
     \<lparr>urlChan = [], urlChanClosed = False, visited = {seedURL},
      workers = [Receiving, Receiving],
      fetched = [seedURL], pageChan = [(seedURL, 0)], errorChan = [], seeded = True, ctxDone = False\<rparr>"

section \<open>Invariants of the crawl\<close>

text \<open>
  Predicates on the states of a crawl, for the proofs. \<open>depths_within\<close>: every queued
  target and every target a worker holds has a depth from 0 to the maximal depth (from 0 to
  0 when that is negative), and a worker sending links does so for a page below the maximal
  depth. \<open>seed_only\<close>: the seed is the only target there is; \<open>pending\<close> counts the targets
  queued, held by a worker that has not fetched yet, and fetched.
\<close>

fun worker_within :: "int \<Rightarrow> worker \<Rightarrow> bool" where
  "worker_within m (Enqueuing depth links) = (0 \<le> depth \<and> depth < m)"
| "worker_within m Receiving = True"
| "worker_within m Exited = True"
| "worker_within m (Received t) = (0 \<le> snd t \<and> snd t \<le> max 0 m)"
| "worker_within m (Unvisited t) = (0 \<le> snd t \<and> snd t \<le> max 0 m)"
| "worker_within m (Claimed t) = (0 \<le> snd t \<and> snd t \<le> max 0 m)"
| "worker_within m (Fetching t) = (0 \<le> snd t \<and> snd t \<le> max 0 m)"
| "worker_within m (SendingError t) = (0 \<le> snd t \<and> snd t \<le> max 0 m)"
| "worker_within m (SendingPage t links) = (0 \<le> snd t \<and> snd t \<le> max 0 m)"

definition depths_within :: "crawl_args \<Rightarrow> crawl \<Rightarrow> bool" where
  "depths_within a s =
     (list_all (\<lambda>t. 0 \<le> snd t \<and> snd t \<le> max 0 (maxDepth a)) (urlChan s)
      \<and> list_all (worker_within (maxDepth a)) (workers s))"

fun before_fetch :: "worker \<Rightarrow> bool" where
  "before_fetch (Received t) = True"
| "before_fetch (Unvisited t) = True"
| "before_fetch (Claimed t) = True"
| "before_fetch (Fetching t) = True"
| "before_fetch w = False"

fun worker_on_seed :: "string \<Rightarrow> worker \<Rightarrow> bool" where
  "worker_on_seed u (Enqueuing depth links) = False"
| "worker_on_seed u Receiving = True"
| "worker_on_seed u Exited = True"
| "worker_on_seed u (Received t) = (t = (u, 0))"
| "worker_on_seed u (Unvisited t) = (t = (u, 0))"
| "worker_on_seed u (Claimed t) = (t = (u, 0))"
| "worker_on_seed u (Fetching t) = (t = (u, 0))"
| "worker_on_seed u (SendingError t) = (t = (u, 0))"
| "worker_on_seed u (SendingPage t links) = (t = (u, 0))"

definition pending :: "crawl \<Rightarrow> nat" where
  "pending s = length (urlChan s) + length (filter before_fetch (workers s)) + length (fetched s)"

definition seed_only :: "crawl_args \<Rightarrow> crawl \<Rightarrow> bool" where
  "seed_only a s =
     (pending s \<le> (if seeded s then 1 else 0)
      \<and> list_all (\<lambda>t. t = (startURL a, 0)) (urlChan s)
      \<and> list_all (worker_on_seed (startURL a)) (workers s)
      \<and> list_all (\<lambda>u. u = startURL a) (fetched s))"

definition others :: "('a \<Rightarrow> bool) \<Rightarrow> 'a list \<Rightarrow> nat \<Rightarrow> nat" where
  "others P ws i = length (filter P (take i ws)) + length (filter P (drop (Suc i) ws))"

section \<open>Slices and integers\<close>

lemma wrap64_id: "- (2 ^ 63) \<le> x \<Longrightarrow> x < 2 ^ 63 \<Longrightarrow> wrap64 x = x"
  unfolding wrap64_def by (rule signed_take_bit_int_eq_self)

lemma truncateTo_nonneg:
  "0 \<le> limit \<Longrightarrow> truncateTo xs limit = Inr (take (nat limit) xs)"
  by (simp add: truncateTo_def)

lemma truncateTo_negative:
  "limit < 0 \<Longrightarrow> truncateTo xs limit = Inl SliceBoundsOutOfRange"
  by (simp add: truncateTo_def)

section \<open>Retrieve\<close>

lemma Retrieve_no_reranker:
  "fst (Retrieve search reranker query limit) = fst (Retrieve search None query limit)"
  by (simp add: Retrieve_def Let_def split: sum.splits)

text \<open>
  C5, as stated, fails: with a negative limit and a search that succeeds (here with no
  hits), \<^verbatim>\<open>results[:limit]\<close> panics and \<^verbatim>\<open>Retrieve\<close> returns nothing.
\<close>

theorem Retrieve_negative_limit_panics:
  "fst (Retrieve noHits None ''go'' (- 1)) = Panicked SliceBoundsOutOfRange"
  by (simp add: Retrieve_def truncateTo_def spawn_rerank_def noHits_def)

text \<open>
  C5, amended: whatever the limit, what \<^verbatim>\<open>Retrieve\<close> hands to its caller is the same with any
  reranker (configured or not, succeeding or failing) as with none; and for a limit that is
  not negative (and whose double fits an \<^verbatim>\<open>int\<close>) it is the search error, or the result of the
  search for \<open>2 * limit\<close> candidates cut to its first \<open>limit\<close> entries.
\<close>

theorem Retrieve_ignores_reranker:
  "fst (Retrieve search reranker query limit) = fst (Retrieve search None query limit)
   \<and> (0 \<le> limit \<and> limit < 2 ^ 62 \<longrightarrow>
        fst (Retrieve search reranker query limit) =
          (case search query (2 * limit) of
             Inl err \<Rightarrow> Failed (''failed to search index: '' @ err)
           | Inr results \<Rightarrow> Returned (take (nat limit) results)))"
proof (intro conjI impI)
  show "fst (Retrieve search reranker query limit) = fst (Retrieve search None query limit)"
    by (rule Retrieve_no_reranker)
next
  assume lim: "0 \<le> limit \<and> limit < 2 ^ 62"
  then have "wrap64 (limit * 2) = 2 * limit"
    by (simp add: wrap64_id)
  with lim show "fst (Retrieve search reranker query limit) =
          (case search query (2 * limit) of
             Inl err \<Rightarrow> Failed (''failed to search index: '' @ err)
           | Inr results \<Rightarrow> Returned (take (nat limit) results))"
    by (simp add: Retrieve_def Let_def truncateTo_nonneg split: sum.splits)
qed

theorem Retrieve_ignores_reranker_witness:
  "(0::int) \<le> 1 \<and> (1::int) < 2 ^ 62
   \<and> fst (Retrieve (\<lambda>q n. Inr [hit ''c1'' 3, hit ''c2'' 2, hit ''c3'' 1])
             (Some (\<lambda>q rs. Inl ''timeout'')) ''go'' 1)
       = Returned [hit ''c1'' 3]"
  using Retrieve_ignores_reranker
    [of "\<lambda>q n. Inr [hit ''c1'' 3, hit ''c2'' 2, hit ''c3'' 1]"
        "Some (\<lambda>q rs. Inl ''timeout'')" "''go''" 1, THEN conjunct2]
  by simp

text \<open>
  C10: with a limit that is not negative, a successful search makes \<^verbatim>\<open>Retrieve\<close> return, and
  return at most \<open>limit\<close> results. The handler turns a limit of 0 into 10, keeps a limit that
  is not negative within 0 to 100, and passes a negative limit on as it is.
\<close>

theorem Retrieve_slice_in_bounds:
  "(0 \<le> limit \<and> search query (wrap64 (limit * 2)) = Inr results \<longrightarrow>
      (\<exists>kept. fst (Retrieve search reranker query limit) = Returned kept
             \<and> int (length kept) \<le> limit))
   \<and> handleSearch_limit 0 = 10
   \<and> (0 \<le> reqLimit \<longrightarrow> 0 \<le> handleSearch_limit reqLimit \<and> handleSearch_limit reqLimit \<le> 100)
   \<and> (reqLimit < 0 \<longrightarrow> handleSearch_limit reqLimit = reqLimit)"
  by (auto simp: Retrieve_def Let_def truncateTo_nonneg handleSearch_limit_def)

theorem Retrieve_slice_in_bounds_witness:
  "(0::int) \<le> 2
   \<and> fst (Retrieve (\<lambda>q n. Inr [hit ''c1'' 3, hit ''c2'' 2, hit ''c3'' 1]) None ''go'' 2)
       = Returned [hit ''c1'' 3, hit ''c2'' 2]
   \<and> handleSearch_limit 250 = 100
   \<and> handleSearch_limit (- 3) = - 3"
  using Retrieve_slice_in_bounds
    [of 2 "\<lambda>q n. Inr [hit ''c1'' 3, hit ''c2'' 2, hit ''c3'' 1]" "''go''"
        "[hit ''c1'' 3, hit ''c2'' 2, hit ''c3'' 1]" None 250]
    Retrieve_slice_in_bounds
    [of 2 "\<lambda>q n. Inr [hit ''c1'' 3, hit ''c2'' 2, hit ''c3'' 1]" "''go''"
        "[hit ''c1'' 3, hit ''c2'' 2, hit ''c3'' 1]" None "- 3"]
  by (simp add: Retrieve_def truncateTo_def spawn_rerank_def handleSearch_limit_def)

section \<open>fetchAndParse\<close>

text \<open>
  C9, as stated, fails: a response with status 204, a 2xx status, is returned as an error
  by the status check.
\<close>

theorem fetchAndParse_rejects_204:
  "is2xx 204 \<and>
   fetchAndParse (answering \<lparr>StatusCode = 204, ContentType = ''text/html'', Body = []\<rparr>)
       loadedConfig ''https://example.com/''
     = Inl (HTTPStatus 204)"
  by (simp add: is2xx_def fetchAndParse_def answering_def StatusOK_def)

text \<open>
  C9, amended: a fetched response is rejected on its status iff the status is not 200. So
  every response whose status is not 2xx is returned as that error, and a response with
  status 200 goes on to the check of the content type.
\<close>

theorem fetchAndParse_status:
  "doRequest env targetURL = Inr resp \<longrightarrow>
     (fetchAndParse env cfg targetURL = Inl (HTTPStatus (StatusCode resp))) = (StatusCode resp \<noteq> 200)
     \<and> (\<not> is2xx (StatusCode resp) \<longrightarrow>
          fetchAndParse env cfg targetURL = Inl (HTTPStatus (StatusCode resp)))
     \<and> (StatusCode resp = 200 \<and> \<not> Contains (ContentType resp) ''text/html'' \<longrightarrow>
          fetchAndParse env cfg targetURL = Inl (UnsupportedContentType (ContentType resp)))"
  by (auto simp: fetchAndParse_def StatusOK_def is2xx_def split: sum.splits)

theorem fetchAndParse_status_witness:
  "doRequest (answering \<lparr>StatusCode = 404, ContentType = ''text/html'', Body = []\<rparr>) ''https://example.com/x''
     = Inr \<lparr>StatusCode = 404, ContentType = ''text/html'', Body = []\<rparr>
   \<and> \<not> is2xx 404
   \<and> fetchAndParse (answering \<lparr>StatusCode = 404, ContentType = ''text/html'', Body = []\<rparr>)
        loadedConfig ''https://example.com/x'' = Inl (HTTPStatus 404)
   \<and> doRequest (answering \<lparr>StatusCode = 200, ContentType = ''image/png'', Body = []\<rparr>) ''https://example.com/x''
     = Inr \<lparr>StatusCode = 200, ContentType = ''image/png'', Body = []\<rparr>
   \<and> \<not> Contains ''image/png'' ''text/html''
   \<and> fetchAndParse (answering \<lparr>StatusCode = 200, ContentType = ''image/png'', Body = []\<rparr>)
        loadedConfig ''https://example.com/x'' = Inl (UnsupportedContentType ''image/png'')"
  using fetchAndParse_status
    [of "answering \<lparr>StatusCode = 404, ContentType = ''text/html'', Body = []\<rparr>"
        "''https://example.com/x''" "\<lparr>StatusCode = 404, ContentType = ''text/html'', Body = []\<rparr>" loadedConfig]
    fetchAndParse_status
    [of "answering \<lparr>StatusCode = 200, ContentType = ''image/png'', Body = []\<rparr>"
        "''https://example.com/x''" "\<lparr>StatusCode = 200, ContentType = ''image/png'', Body = []\<rparr>" loadedConfig]
  by (simp add: answering_def is2xx_def HasPrefix_def)

section \<open>The sort of combineResults\<close>

lemma swapIfLess_length: "length (swapIfLess i j xs) = length xs"
  by (simp add: swapIfLess_def)

lemma swapIfLess_mset:
  "i < length xs \<Longrightarrow> j < length xs \<Longrightarrow> mset (swapIfLess i j xs) = mset xs"
  using mset_swap [of j xs i] by (simp add: swapIfLess_def)

lemma inner_loop_inv:
  assumes "i < length xs" and "m \<le> length xs"
  defines "ys \<equiv> fold (swapIfLess i) [Suc i..<m] xs"
  shows "length ys = length xs \<and> mset ys = mset xs
       \<and> (\<forall>k<i. ys ! k = xs ! k)
       \<and> (\<forall>k. i < k \<and> k < m \<longrightarrow> Score (ys ! k) \<le> Score (ys ! i))"
  using assms(2) unfolding ys_def
proof (induction m)
  case 0
  then show ?case by simp
next
  case (Suc m)
  show ?case
  proof (cases "Suc i \<le> m")
    case False
    then show ?thesis by simp
  next
    case True
    let ?zs = "fold (swapIfLess i) [Suc i..<m] xs"
    from Suc have IH: "length ?zs = length xs" "mset ?zs = mset xs"
      "\<forall>k<i. ?zs ! k = xs ! k"
      "\<forall>k. i < k \<and> k < m \<longrightarrow> Score (?zs ! k) \<le> Score (?zs ! i)"
      by simp_all
    from True have step: "fold (swapIfLess i) [Suc i..<Suc m] xs = swapIfLess i m ?zs"
      by simp
    have im: "i < m" "m < length ?zs" "i < length ?zs"
      using True Suc.prems IH(1) by simp_all
    show ?thesis
    proof (cases "Score (?zs ! i) < Score (?zs ! m)")
      case False
      then have same: "swapIfLess i m ?zs = ?zs"
        by (simp add: swapIfLess_def)
      have "\<forall>k. i < k \<and> k < Suc m \<longrightarrow> Score (?zs ! k) \<le> Score (?zs ! i)"
        using IH(4) False by (auto simp: less_Suc_eq)
      with IH show ?thesis unfolding step same by simp
    next
      case True
      then have swapped: "swapIfLess i m ?zs = ?zs[i := ?zs ! m, m := ?zs ! i]"
        by (simp add: swapIfLess_def)
      have "\<forall>k. i < k \<and> k < Suc m \<longrightarrow>
              Score (?zs[i := ?zs ! m, m := ?zs ! i] ! k) \<le> Score (?zs[i := ?zs ! m, m := ?zs ! i] ! i)"
        using IH(4) True im by (auto simp: less_Suc_eq nth_list_update)
      moreover have "\<forall>k<i. ?zs[i := ?zs ! m, m := ?zs ! i] ! k = xs ! k"
        using IH(3) im by (simp add: nth_list_update)
      moreover have "mset (?zs[i := ?zs ! m, m := ?zs ! i]) = mset xs"
        using mset_swap [of m ?zs i] im IH(2) by simp
      ultimately show ?thesis unfolding step swapped using IH(1) by simp
    qed
  qed
qed


lemma sortInner_inv:
  assumes "i < length xs"
  shows "length (sortInner i xs) = length xs" and "mset (sortInner i xs) = mset xs"
    and "take i (sortInner i xs) = take i xs"
    and "mset (drop i (sortInner i xs)) = mset (drop i xs)"
    and "\<forall>k. i < k \<and> k < length xs \<longrightarrow> Score (sortInner i xs ! k) \<le> Score (sortInner i xs ! i)"
proof -
  let ?ys = "sortInner i xs"
  from inner_loop_inv [OF assms order_refl]
  have inv: "length ?ys = length xs" "mset ?ys = mset xs" "\<forall>k<i. ?ys ! k = xs ! k"
    "\<forall>k. i < k \<and> k < length xs \<longrightarrow> Score (?ys ! k) \<le> Score (?ys ! i)"
    by (simp_all add: sortInner_def)
  show "length ?ys = length xs" "mset ?ys = mset xs" by (rule inv)+
  show tk: "take i ?ys = take i xs"
    using inv(1,3) assms by (intro nth_equalityI) simp_all
  have "mset (take i ?ys) + mset (drop i ?ys) = mset (take i xs) + mset (drop i xs)"
    using inv(2) by (metis append_take_drop_id mset_append)
  then show "mset (drop i ?ys) = mset (drop i xs)"
    by (simp add: tk)
  show "\<forall>k. i < k \<and> k < length xs \<longrightarrow> Score (?ys ! k) \<le> Score (?ys ! i)" by (rule inv)
qed

lemma outer_loop_inv:
  assumes "m \<le> length xs"
  defines "ys \<equiv> fold sortInner [0..<m] xs"
  shows "length ys = length xs \<and> mset ys = mset xs
       \<and> (\<forall>a b. a < m \<and> a < b \<and> b < length xs \<longrightarrow> Score (ys ! b) \<le> Score (ys ! a))"
  using assms(1) unfolding ys_def
proof (induction m)
  case 0
  then show ?case by simp
next
  case (Suc m)
  let ?zs = "fold sortInner [0..<m] xs"
  let ?ys = "sortInner m ?zs"
  from Suc have IH: "length ?zs = length xs" "mset ?zs = mset xs"
    "\<forall>a b. a < m \<and> a < b \<and> b < length xs \<longrightarrow> Score (?zs ! b) \<le> Score (?zs ! a)"
    by simp_all
  have m: "m < length ?zs" using Suc.prems IH(1) by simp
  note inner = sortInner_inv [OF m]
  have step: "fold sortInner [0..<Suc m] xs = ?ys" by simp
  have "Score (?ys ! b) \<le> Score (?ys ! a)" if ab: "a < Suc m" "a < b" "b < length xs" for a b
  proof (cases "a = m")
    case True
    with inner(5) ab IH(1) show ?thesis by simp
  next
    case False
    with ab have am: "a < m" by simp
    have ya: "?ys ! a = ?zs ! a"
      using am inner(3) by (metis nth_take)
    show ?thesis
    proof (cases "b < m")
      case True
      then have "?ys ! b = ?zs ! b" using inner(3) by (metis nth_take)
      with ya IH(3) am ab show ?thesis by simp
    next
      case False
      then have "?ys ! b \<in> set (drop m ?ys)"
        using ab(3) inner(1) IH(1) by (auto simp: in_set_conv_nth intro!: exI [of _ "b - m"])
      then have "?ys ! b \<in> set (drop m ?zs)"
        using inner(4) by (metis set_mset_mset)
      then obtain c where c: "c < length ?zs - m" "?ys ! b = ?zs ! (m + c)"
        by (auto simp: in_set_conv_nth)
      then have "Score (?zs ! (m + c)) \<le> Score (?zs ! a)"
        using IH(3) am IH(1) by simp
      with c ya show ?thesis by simp
    qed
  qed
  with inner(1,2) IH(1,2) show ?case unfolding step by simp
qed

lemma sortByScore_sorted: "sorted_desc (sortByScore xs)"
  using outer_loop_inv [of "length xs" xs]
  by (simp add: sorted_desc_def sortByScore_def sorted_wrt_iff_nth_less)

lemma sortByScore_mset: "mset (sortByScore xs) = mset xs"
  using outer_loop_inv [of "length xs" xs] by (simp add: sortByScore_def)

lemma sortByScore_length: "length (sortByScore xs) = length xs"
  using outer_loop_inv [of "length xs" xs] by (simp add: sortByScore_def)

section \<open>The merge of combineResults\<close>

lemma update_fresh:
  "k \<notin> fst ` set m \<Longrightarrow> AList.update k v m = m @ [(k, v)]"
  by (induction m) auto

lemma map_of_fresh: "k \<notin> fst ` set m \<Longrightarrow> map_of m k = None"
  by (simp add: map_of_eq_None_iff)

lemma map_of_addVectorResult:
  "map_of (addVectorResult m r) k =
     (if k = ChunkID r
      then Some (case map_of m k of
                   Some e \<Rightarrow> e\<lparr>Score := Score e * (3 / 10) + Score r * (7 / 10)\<rparr>
                 | None \<Rightarrow> r\<lparr>Score := Score r * (7 / 10)\<rparr>)
      else map_of m k)"
  by (simp add: addVectorResult_def Let_def update_conv' split: option.splits)

lemma map_of_addBM25Result:
  "map_of (addBM25Result m r) k =
     (if k = ChunkID r
      then Some (case map_of m k of
                   Some e \<Rightarrow> e\<lparr>Score := Score e * (7 / 10) + Score r * (3 / 10)\<rparr>
                 | None \<Rightarrow> r\<lparr>Score := Score r * (3 / 10)\<rparr>)
      else map_of m k)"
  by (simp add: addBM25Result_def Let_def update_conv' split: option.splits)

lemma foldl_addVector_other:
  "k \<notin> ChunkID ` set rs \<Longrightarrow> map_of (foldl addVectorResult m rs) k = map_of m k"
  by (induction rs arbitrary: m) (simp_all add: map_of_addVectorResult)

lemma foldl_addBM25_other:
  "k \<notin> ChunkID ` set rs \<Longrightarrow> map_of (foldl addBM25Result m rs) k = map_of m k"
  by (induction rs arbitrary: m) (simp_all add: map_of_addBM25Result)

lemma foldl_addVector_once:
  "filter (\<lambda>x. ChunkID x = k) rs = [r] \<Longrightarrow>
   map_of (foldl addVectorResult m rs) k =
     Some (case map_of m k of
             Some e \<Rightarrow> e\<lparr>Score := Score e * (3 / 10) + Score r * (7 / 10)\<rparr>
           | None \<Rightarrow> r\<lparr>Score := Score r * (7 / 10)\<rparr>)"
proof (induction rs arbitrary: m)
  case Nil
  then show ?case by simp
next
  case (Cons x rs)
  show ?case
  proof (cases "ChunkID x = k")
    case True
    with Cons.prems have x: "x = r" and "filter (\<lambda>x. ChunkID x = k) rs = []" by simp_all
    then have "k \<notin> ChunkID ` set rs" by (auto simp: filter_empty_conv)
    then show ?thesis using True x
      by (simp add: foldl_addVector_other map_of_addVectorResult split: option.split)
  next
    case False
    with Cons.prems have "filter (\<lambda>x. ChunkID x = k) rs = [r]" by simp
    from Cons.IH [OF this, of "addVectorResult m x"] False show ?thesis
      by (simp add: map_of_addVectorResult)
  qed
qed

lemma foldl_addBM25_once:
  "filter (\<lambda>x. ChunkID x = k) rs = [r] \<Longrightarrow>
   map_of (foldl addBM25Result m rs) k =
     Some (case map_of m k of
             Some e \<Rightarrow> e\<lparr>Score := Score e * (7 / 10) + Score r * (3 / 10)\<rparr>
           | None \<Rightarrow> r\<lparr>Score := Score r * (3 / 10)\<rparr>)"
proof (induction rs arbitrary: m)
  case Nil
  then show ?case by simp
next
  case (Cons x rs)
  show ?case
  proof (cases "ChunkID x = k")
    case True
    with Cons.prems have x: "x = r" and "filter (\<lambda>x. ChunkID x = k) rs = []" by simp_all
    then have "k \<notin> ChunkID ` set rs" by (auto simp: filter_empty_conv)
    then show ?thesis using True x
      by (simp add: foldl_addBM25_other map_of_addBM25Result split: option.split)
  next
    case False
    with Cons.prems have "filter (\<lambda>x. ChunkID x = k) rs = [r]" by simp
    from Cons.IH [OF this, of "addBM25Result m x"] False show ?thesis
      by (simp add: map_of_addBM25Result)
  qed
qed

text \<open>
  C1, as stated, fails: the claim takes the fused score to be the blend of the two raw
  scores, \<open>v * 0.7 + b * 0.3\<close>, which is 0.81 for \<open>v = 0.9\<close> and \<open>b = 0.6\<close>. The merge yields
  0.621: the score the second pass finds in the map is not the raw \<open>v\<close> but \<open>v * 0.7\<close>.
\<close>

theorem shared_chunk_not_raw_blend:
  "map_option Score
     (map_of (mergeResults [hit ''chunk_0'' (9 / 10)] [hit ''chunk_0'' (6 / 10)]) ''chunk_0'')
     = Some (621 / 1000)
   \<and> (621 / 1000 :: rat) \<noteq> (9 / 10) * (7 / 10) + (6 / 10) * (3 / 10)"
  by (simp add: mergeResults_def addVectorResult_def addBM25Result_def hit_def Let_def)

text \<open>
  C1, amended: for a chunk id that occurs once in the vector results, with raw score \<open>v\<close>,
  and once in the lexical results, with raw score \<open>b\<close>, the merge step keeps the vector
  result with the score \<open>existing * 0.7 + b * 0.3\<close>, where \<open>existing = v * 0.7\<close> is the score
  the vector pass stored.
\<close>

theorem shared_chunk_fused_score:
  assumes "filter (\<lambda>r. ChunkID r = chunk) vectorResults = [rv]"
    and "filter (\<lambda>r. ChunkID r = chunk) bm25Results = [rb]"
  shows "map_of (mergeResults vectorResults bm25Results) chunk =
           Some (rv\<lparr>Score := (Score rv * (7 / 10)) * (7 / 10) + Score rb * (3 / 10)\<rparr>)"
proof -
  have "map_of (foldl addVectorResult [] vectorResults) chunk =
          Some (rv\<lparr>Score := Score rv * (7 / 10)\<rparr>)"
    using foldl_addVector_once [OF assms(1), of "[]"] by simp
  then show ?thesis
    using foldl_addBM25_once [OF assms(2), of "foldl addVectorResult [] vectorResults"]
    by (simp add: mergeResults_def)
qed

theorem shared_chunk_fused_score_witness:
  "filter (\<lambda>r. ChunkID r = ''chunk_0'') [hit ''chunk_0'' (9 / 10), hit ''chunk_1'' (1 / 2)]
     = [hit ''chunk_0'' (9 / 10)]
   \<and> filter (\<lambda>r. ChunkID r = ''chunk_0'') [hit ''chunk_7'' 3, hit ''chunk_0'' (6 / 10), hit ''chunk_7'' 1]
     = [hit ''chunk_0'' (6 / 10)]
   \<and> map_of (mergeResults [hit ''chunk_0'' (9 / 10), hit ''chunk_1'' (1 / 2)]
                            [hit ''chunk_7'' 3, hit ''chunk_0'' (6 / 10), hit ''chunk_7'' 1]) ''chunk_0''
       = Some (hit ''chunk_0'' (621 / 1000))"
proof -
  have v: "filter (\<lambda>r. ChunkID r = ''chunk_0'') [hit ''chunk_0'' (9 / 10), hit ''chunk_1'' (1 / 2)]
     = [hit ''chunk_0'' (9 / 10)]"
    and b: "filter (\<lambda>r. ChunkID r = ''chunk_0'') [hit ''chunk_7'' 3, hit ''chunk_0'' (6 / 10), hit ''chunk_7'' 1]
     = [hit ''chunk_0'' (6 / 10)]"
    by (simp_all add: hit_def)
  from shared_chunk_fused_score [OF v b] v b show ?thesis
    by (simp add: hit_def)
qed

lemma foldl_addVector_fresh:
  "distinct (map ChunkID rs) \<Longrightarrow> ChunkID ` set rs \<inter> fst ` set m = {} \<Longrightarrow>
   foldl addVectorResult m rs = m @ map (\<lambda>r. (ChunkID r, r\<lparr>Score := Score r * (7 / 10)\<rparr>)) rs"
proof (induction rs arbitrary: m)
  case Nil
  then show ?case by simp
next
  case (Cons x rs)
  from Cons.prems have fresh: "ChunkID x \<notin> fst ` set m" by auto
  then have one: "addVectorResult m x = m @ [(ChunkID x, x\<lparr>Score := Score x * (7 / 10)\<rparr>)]"
    by (simp add: addVectorResult_def Let_def map_of_fresh update_fresh)
  from Cons.prems have "distinct (map ChunkID rs)"
    and "ChunkID ` set rs \<inter> fst ` set (m @ [(ChunkID x, x\<lparr>Score := Score x * (7 / 10)\<rparr>)]) = {}"
    by auto
  from Cons.IH [OF this] one show ?case by simp
qed

lemma foldl_addBM25_fresh:
  "distinct (map ChunkID rs) \<Longrightarrow> ChunkID ` set rs \<inter> fst ` set m = {} \<Longrightarrow>
   foldl addBM25Result m rs = m @ map (\<lambda>r. (ChunkID r, r\<lparr>Score := Score r * (3 / 10)\<rparr>)) rs"
proof (induction rs arbitrary: m)
  case Nil
  then show ?case by simp
next
  case (Cons x rs)
  from Cons.prems have fresh: "ChunkID x \<notin> fst ` set m" by auto
  then have one: "addBM25Result m x = m @ [(ChunkID x, x\<lparr>Score := Score x * (3 / 10)\<rparr>)]"
    by (simp add: addBM25Result_def Let_def map_of_fresh update_fresh)
  from Cons.prems have "distinct (map ChunkID rs)"
    and "ChunkID ` set rs \<inter> fst ` set (m @ [(ChunkID x, x\<lparr>Score := Score x * (3 / 10)\<rparr>)]) = {}"
    by auto
  from Cons.IH [OF this] one show ?case by simp
qed

lemma mergeResults_disjoint:
  assumes "distinct (map ChunkID (vectorResults @ bm25Results))"
  shows "map snd (mergeResults vectorResults bm25Results) =
           map (\<lambda>r. r\<lparr>Score := Score r * (7 / 10)\<rparr>) vectorResults
           @ map (\<lambda>r. r\<lparr>Score := Score r * (3 / 10)\<rparr>) bm25Results"
proof -
  from assms have dv: "distinct (map ChunkID vectorResults)"
    and db: "distinct (map ChunkID bm25Results)"
    and dj: "ChunkID ` set vectorResults \<inter> ChunkID ` set bm25Results = {}"
    by auto
  have v: "foldl addVectorResult [] vectorResults =
             map (\<lambda>r. (ChunkID r, r\<lparr>Score := Score r * (7 / 10)\<rparr>)) vectorResults"
    using foldl_addVector_fresh [OF dv, of "[]"] by simp
  have "ChunkID ` set bm25Results \<inter> fst ` set (foldl addVectorResult [] vectorResults) = {}"
    using dj unfolding v by force
  from foldl_addBM25_fresh [OF db this] show ?thesis
    by (simp add: mergeResults_def v comp_def)
qed

lemma sorted_desc_take: "sorted_desc xs \<Longrightarrow> sorted_desc (take n xs)"
  unfolding sorted_desc_def by (rule sorted_wrt_take)

text \<open>
  C2, as stated, fails: the two lists below have no chunk id in common, yet the second
  lexical result does not appear in the fused set with its score times 0.3, because the
  second loop blends a chunk id that the lexical list repeats (so does the first loop for
  the vector list).
\<close>

theorem repeated_chunk_not_preserved:
  "set (map ChunkID []) \<inter> set (map ChunkID [hit ''c1'' 1, hit ''c1'' 2]) = {}
   \<and> fusedSet asStored [] [hit ''c1'' 1, hit ''c1'' 2] = [hit ''c1'' (81 / 100)]
   \<and> (hit ''c1'' 2)\<lparr>Score := Score (hit ''c1'' 2) * (3 / 10)\<rparr>
        \<notin> set (fusedSet asStored [] [hit ''c1'' 1, hit ''c1'' 2])"
  by (simp add: fusedSet_def mergeResults_def addBM25Result_def hit_def Let_def asStored_def)

text \<open>
  C2, amended: for a limit that is not negative, \<^verbatim>\<open>combineResults\<close> returns a list sorted by
  descending score with at most \<open>limit\<close> entries, whatever the two lists and the order of
  the map iteration. When no chunk id occurs twice in the two lists together, the fused set
  before truncation consists of exactly the vector results with their score times 0.7 and
  the lexical results with their score times 0.3.
\<close>

theorem combineResults_sorted_bounded_complete:
  "(0 \<le> limit \<longrightarrow>
      (\<exists>out. combineResults rangeOrder vectorResults bm25Results limit = Inr out
            \<and> sorted_desc out \<and> int (length out) \<le> limit))
   \<and> (visits_each_once rangeOrder \<and> distinct (map ChunkID (vectorResults @ bm25Results)) \<longrightarrow>
        set (fusedSet rangeOrder vectorResults bm25Results) =
          (\<lambda>r. r\<lparr>Score := Score r * (7 / 10)\<rparr>) ` set vectorResults
          \<union> (\<lambda>r. r\<lparr>Score := Score r * (3 / 10)\<rparr>) ` set bm25Results)"
proof (intro conjI impI)
  assume "0 \<le> limit"
  then show "\<exists>out. combineResults rangeOrder vectorResults bm25Results limit = Inr out
            \<and> sorted_desc out \<and> int (length out) \<le> limit"
    by (simp add: combineResults_def truncateTo_nonneg sorted_desc_take sortByScore_sorted)
next
  assume a: "visits_each_once rangeOrder \<and> distinct (map ChunkID (vectorResults @ bm25Results))"
  then have "set (rangeOrder (map snd (mergeResults vectorResults bm25Results))) =
               set (map snd (mergeResults vectorResults bm25Results))"
    unfolding visits_each_once_def by (metis set_mset_mset)
  with a show "set (fusedSet rangeOrder vectorResults bm25Results) =
          (\<lambda>r. r\<lparr>Score := Score r * (7 / 10)\<rparr>) ` set vectorResults
          \<union> (\<lambda>r. r\<lparr>Score := Score r * (3 / 10)\<rparr>) ` set bm25Results"
    by (simp add: fusedSet_def mergeResults_disjoint)
qed

theorem combineResults_sorted_bounded_complete_witness:
  "(0::int) \<le> 2
   \<and> combineResults rev [hit ''chunk_0'' 1, hit ''chunk_1'' 3] [hit ''c9'' 5] 2
       = Inr [hit ''chunk_1'' (21 / 10), hit ''c9'' (3 / 2)]
   \<and> visits_each_once rev
   \<and> distinct (map ChunkID ([hit ''chunk_0'' 1, hit ''chunk_1'' 3] @ [hit ''c9'' 5]))
   \<and> set (fusedSet rev [hit ''chunk_0'' 1, hit ''chunk_1'' 3] [hit ''c9'' 5])
       = {hit ''chunk_0'' (7 / 10), hit ''chunk_1'' (21 / 10), hit ''c9'' (3 / 2)}"
proof -
  have v: "visits_each_once rev" by (simp add: visits_each_once_def)
  have d: "distinct (map ChunkID ([hit ''chunk_0'' 1, hit ''chunk_1'' 3] @ [hit ''c9'' 5]))"
    by (simp add: hit_def)
  have c: "combineResults rev [hit ''chunk_0'' 1, hit ''chunk_1'' 3] [hit ''c9'' 5] 2
       = Inr [hit ''chunk_1'' (21 / 10), hit ''c9'' (3 / 2)]"
    by code_simp
  from combineResults_sorted_bounded_complete
    [of 2 rev "[hit ''chunk_0'' 1, hit ''chunk_1'' 3]" "[hit ''c9'' 5]"] v d c
  show ?thesis by (auto simp: hit_def)
qed

section \<open>rateLimit\<close>






section \<open>GetRobots\<close>

lemma robotsURL_inj: "robotsURL d = robotsURL d' \<Longrightarrow> d = d'"
  by (simp add: robotsURL_def)

lemma GetRobots_hit:
  "cache rc domain = Some robots \<Longrightarrow> GetRobots httpGet rc domain userAgent = (robots, rc)"
  by (simp add: GetRobots_def)

lemma GetRobots_keeps:
  "cache rc domain = Some robots \<Longrightarrow>
   cache (snd (GetRobots httpGet rc other userAgent)) domain = Some robots"
  by (auto simp: GetRobots_def Let_def split: option.splits sum.splits prod.splits)

lemma GetRobots_requests_other:
  "cache rc domain = Some robots \<Longrightarrow>
   count_list (requested (snd (GetRobots httpGet rc other userAgent))) (robotsURL domain)
     = count_list (requested rc) (robotsURL domain)"
  by (auto simp: GetRobots_def Let_def dest: robotsURL_inj
           split: option.splits sum.splits prod.splits)

lemma GetRobots_all_cached:
  "cache rc domain = Some robots \<Longrightarrow>
   cache (GetRobots_all httpGet userAgent rc domains) domain = Some robots
   \<and> count_list (requested (GetRobots_all httpGet userAgent rc domains)) (robotsURL domain)
       = count_list (requested rc) (robotsURL domain)"
proof (induction domains arbitrary: rc)
  case Nil
  then show ?case by simp
next
  case (Cons d domains)
  from Cons.IH [OF GetRobots_keeps [OF Cons.prems]] GetRobots_requests_other [OF Cons.prems]
  show ?case by simp
qed

text \<open>
  C7, as stated, fails: the permissive policy returned for a domain whose robots.txt cannot
  be fetched is not stored, so a second call for the domain requests its robots.txt again.
\<close>

theorem unreachable_robots_requested_twice:
  "requested (GetRobots_all unreachable ''ai-search/1.0'' NewRobotsCache
                [''example.com'', ''example.com''])
     = [''https://example.com/robots.txt'', ''https://example.com/robots.txt'']"
  by (simp add: GetRobots_def NewRobotsCache_def unreachable_def robotsURL_def Let_def)

text \<open>
  C7, amended: when the domain is not cached and the fetch fails or the scanner reports an
  error, \<^verbatim>\<open>GetRobots\<close> returns the permissive policy (nothing disallowed, no delay, every path
  may be crawled) and leaves the cache as it was. A policy that was fetched and parsed
  without error is stored for its domain; and once a domain is cached, no later call, for
  any domains, changes its entry or requests its robots.txt again.
\<close>

theorem GetRobots_policy_and_cache:
  "(cache rc domain = None
      \<and> (httpGet (robotsURL domain) = Inl err
          \<or> httpGet (robotsURL domain) = Inr body \<and> scanError body = Some err) \<longrightarrow>
      GetRobots httpGet rc domain userAgent =
        (permissive userAgent, rc\<lparr>requested := requested rc @ [robotsURL domain]\<rparr>))
   \<and> Disallow (permissive userAgent) = [] \<and> CrawlDelay (permissive userAgent) = 0
   \<and> CanCrawl (permissive userAgent) urlPath
   \<and> (cache rc domain = None \<and> httpGet (robotsURL domain) = Inr body \<and> scanError body = None \<longrightarrow>
        cache (snd (GetRobots httpGet rc domain userAgent)) domain
          = Some (fst (GetRobots httpGet rc domain userAgent)))
   \<and> (cache rc domain = Some robots \<longrightarrow>
        cache (GetRobots_all httpGet userAgent rc domains) domain = Some robots
        \<and> count_list (requested (GetRobots_all httpGet userAgent rc domains)) (robotsURL domain)
            = count_list (requested rc) (robotsURL domain))"
proof (intro conjI impI)
  assume "cache rc domain = None
      \<and> (httpGet (robotsURL domain) = Inl err
          \<or> httpGet (robotsURL domain) = Inr body \<and> scanError body = Some err)"
  then show "GetRobots httpGet rc domain userAgent =
        (permissive userAgent, rc\<lparr>requested := requested rc @ [robotsURL domain]\<rparr>)"
    by (auto simp: GetRobots_def Let_def parseRobotsTxt_def)
next
  assume "cache rc domain = None \<and> httpGet (robotsURL domain) = Inr body \<and> scanError body = None"
  then show "cache (snd (GetRobots httpGet rc domain userAgent)) domain
          = Some (fst (GetRobots httpGet rc domain userAgent))"
    by (auto simp: GetRobots_def Let_def parseRobotsTxt_def)
next
  assume c: "cache rc domain = Some robots"
  from GetRobots_all_cached [OF c]
  show "cache (GetRobots_all httpGet userAgent rc domains) domain = Some robots"
    and "count_list (requested (GetRobots_all httpGet userAgent rc domains)) (robotsURL domain)
            = count_list (requested rc) (robotsURL domain)"
    by simp_all
qed (simp_all add: permissive_def CanCrawl_def)


lemma parse_robotsFile:
  "parseRobotsTxt robotsFile ''ai-search/1.0'' =
     (\<lparr>robotsUserAgent = ''ai-search/1.0'', Disallow = [''/private''], CrawlDelay = 2000000000\<rparr>, None)"
  by code_simp

theorem GetRobots_policy_and_cache_witness:
  "cache NewRobotsCache ''down.example'' = None
   \<and> serving (robotsURL ''down.example'') = Inl ''no such host''
   \<and> fst (GetRobots serving NewRobotsCache ''down.example'' ''ai-search/1.0'') = permissive ''ai-search/1.0''
   \<and> cache NewRobotsCache ''example.com'' = None
   \<and> serving (robotsURL ''example.com'') = Inr robotsFile
   \<and> scanError robotsFile = None
   \<and> cache (snd (GetRobots serving NewRobotsCache ''example.com'' ''ai-search/1.0'')) ''example.com''
       = Some \<lparr>robotsUserAgent = ''ai-search/1.0'', Disallow = [''/private''], CrawlDelay = 2000000000\<rparr>
   \<and> count_list
        (requested (GetRobots_all serving ''ai-search/1.0'' NewRobotsCache
                      [''example.com'', ''down.example'', ''example.com'', ''example.com'']))
        ''https://example.com/robots.txt'' = 1"
proof -
  let ?ua = "''ai-search/1.0''"
  let ?p = "\<lparr>robotsUserAgent = ?ua, Disallow = [''/private''], CrawlDelay = 2000000000\<rparr>"
  let ?rc = "snd (GetRobots serving NewRobotsCache ''example.com'' ?ua)"
  have down: "cache NewRobotsCache ''down.example'' = None
              \<and> serving (robotsURL ''down.example'') = Inl ''no such host''"
    by (simp add: NewRobotsCache_def serving_def robotsURL_def)
  have up: "cache NewRobotsCache ''example.com'' = None
            \<and> serving (robotsURL ''example.com'') = Inr robotsFile \<and> scanError robotsFile = None"
    by (simp add: NewRobotsCache_def serving_def robotsURL_def robotsFile_def)
  have got: "GetRobots serving NewRobotsCache ''example.com'' ?ua =
               (?p, \<lparr>cache = [''example.com'' \<mapsto> ?p], requested = [''https://example.com/robots.txt'']\<rparr>)"
    using up by (simp add: GetRobots_def Let_def parse_robotsFile NewRobotsCache_def robotsURL_def)
  have 1: "fst (GetRobots serving NewRobotsCache ''down.example'' ?ua) = permissive ?ua"
    using GetRobots_policy_and_cache
      [of NewRobotsCache "''down.example''" serving "''no such host''" robotsFile ?ua "''/''" ?p "[]"]
      down by simp
  have 2: "cache ?rc ''example.com'' = Some ?p"
    using GetRobots_policy_and_cache
      [of NewRobotsCache "''example.com''" serving "''no such host''" robotsFile ?ua "''/''" ?p "[]"]
      up got by simp
  have 3: "count_list (requested (GetRobots_all serving ?ua ?rc [''down.example'', ''example.com'', ''example.com'']))
             (robotsURL ''example.com'') = count_list (requested ?rc) (robotsURL ''example.com'')"
    using GetRobots_policy_and_cache
      [of ?rc "''example.com''" serving "''no such host''" robotsFile ?ua "''/''" ?p
          "[''down.example'', ''example.com'', ''example.com'']"]
      2 by blast
  have "count_list (requested ?rc) (robotsURL ''example.com'') = 1"
    by (simp add: got robotsURL_def)
  with 3 have "count_list
        (requested (GetRobots_all serving ?ua NewRobotsCache
                      [''example.com'', ''down.example'', ''example.com'', ''example.com'']))
        ''https://example.com/robots.txt'' = 1"
    by (simp add: robotsURL_def)
  with down up 1 2 show ?thesis by simp
qed

section \<open>Normalize\<close>

lemma Normalize_Path:
  "Path (Normalize encodeQuery u) =
     (if TrimSuffix (Path u) ''/'' = [] then ''/'' else TrimSuffix (Path u) ''/'')"
  by (simp add: Normalize_def Let_def)

lemma Normalize_Scheme:
  "Scheme (Normalize encodeQuery u) = (if Scheme u = ''http'' then ''https'' else Scheme u)"
  by (simp add: Normalize_def Let_def)

lemma Normalize_Host:
  "Host (Normalize encodeQuery u) =
     (if (Scheme u = ''http'' \<or> Scheme u = ''https'') \<and> snd (splitHostPort (ToLower (Host u))) = ''443''
      then fst (splitHostPort (ToLower (Host u))) else ToLower (Host u))"
  by (auto simp: Normalize_def Let_def Port_def Hostname_def)

lemma Normalize_Fragment: "Fragment (Normalize encodeQuery u) = []"
  by (simp add: Normalize_def Let_def)

lemma Normalize_RawQuery: "RawQuery (Normalize encodeQuery u) = encodeQuery (RawQuery u)"
  by (simp add: Normalize_def Let_def)

lemma trim_two: "TrimSuffix ''/a//'' ''/'' = ''/a/''" and trim_one: "TrimSuffix ''/a/'' ''/'' = ''/a''"
  by (simp_all add: TrimSuffix_def HasSuffix_def)

lemma host_example: "ToLower ''example.com'' = ''example.com''"
  and port_example: "splitHostPort ''example.com'' = (''example.com'', [])"
  by code_simp+

text \<open>
  C8: the claim fails on the code for a path that ends in two slashes. \<^verbatim>\<open>TrimSuffix\<close> removes
  one of them, so the URL that \<^verbatim>\<open>Normalize\<close> returns for \<^verbatim>\<open>https://example.com/a//\<close> has the
  path \<^verbatim>\<open>/a/\<close>; that URL parses back to the same scheme, host and path, and normalizing it
  again gives the path \<^verbatim>\<open>/a\<close>. This holds whatever the re-encoding of the query does.
\<close>

theorem Normalize_twice_differs:
  "Path (Normalize encodeQuery twoSlashes) = ''/a/''
   \<and> Path (Normalize encodeQuery (Normalize encodeQuery twoSlashes)) = ''/a''
   \<and> Scheme (Normalize encodeQuery twoSlashes) = ''https''
   \<and> Host (Normalize encodeQuery twoSlashes) = ''example.com''"
  by (simp add: Normalize_Path Normalize_Scheme Normalize_Host twoSlashes_def trim_two trim_one
      host_example port_example)

section \<open>The crawl: depth and deduplication\<close>

lemma list_all_update:
  "list_all P xs \<Longrightarrow> P x \<Longrightarrow> list_all P (xs[i := x])"
  using set_update_subset_insert [of xs i x] by (auto simp: list_all_iff)

lemma workerAt_mem: "workerAt s i = Some w \<Longrightarrow> w \<in> set (workers s)"
  by (auto simp: workerAt_def split: if_splits)

lemma workerAt_within:
  "workerAt s i = Some w \<Longrightarrow> list_all (worker_within m) (workers s) \<Longrightarrow> worker_within m w"
  by (auto simp: list_all_iff dest: workerAt_mem)

lemma depths_within_init: "depths_within a (init a)"
  by (simp add: depths_within_def init_def list_all_iff)

lemma depths_within_step:
  assumes "depths_within a s" and "step a s e = Some s'"
  shows "depths_within a s'"
proof -
  from assms(1) have ws: "worker_within (maxDepth a) w" if "workerAt s i = Some w" for i w
    using that by (auto simp: depths_within_def dest: workerAt_within)
  show ?thesis
proof (cases e)
  case Seed
  with assms show ?thesis by (auto simp: depths_within_def split: if_splits)
next
  case CloseUrlChan
  with assms show ?thesis by (auto simp: depths_within_def split: if_splits)
next
  case Cancel
  with assms show ?thesis by (auto simp: depths_within_def)
next
  case ReadPage
  with assms show ?thesis by (auto simp: depths_within_def split: list.splits)
next
  case ReadError
  with assms show ?thesis by (auto simp: depths_within_def split: list.splits)
next
  case (Receive i)
  with assms show ?thesis
    by (auto simp: depths_within_def goto_def list_all_update
             split: option.splits worker.splits list.splits)
next
  case (ReceiveClosed i)
  with assms show ?thesis
    by (auto simp: depths_within_def goto_def list_all_update
             split: option.splits worker.splits list.splits if_splits)
next
  case (CtxDone i)
  with assms show ?thesis
    by (auto simp: depths_within_def goto_def list_all_update
             split: option.splits worker.splits if_splits)
next
  case (CheckVisited i)
  with assms ws [of i] show ?thesis
    by (auto simp: depths_within_def goto_def
             intro!: list_all_update
             split: option.splits worker.splits if_splits prod.splits)
next
  case (MarkVisited i)
  with assms ws [of i] show ?thesis
    by (auto simp: depths_within_def goto_def
             intro!: list_all_update
             split: option.splits worker.splits prod.splits)
next
  case (CheckRobots i ok)
  with assms ws [of i] show ?thesis
    by (auto simp: depths_within_def goto_def
             intro!: list_all_update
             split: option.splits worker.splits if_splits)
next
  case (Fetch i result)
  with assms ws [of i] show ?thesis
    by (auto simp: depths_within_def goto_def
             intro!: list_all_update
             split: option.splits worker.splits sum.splits prod.splits)
next
  case (SendError i)
  with assms ws [of i] show ?thesis
    by (auto simp: depths_within_def goto_def
             intro!: list_all_update
             split: option.splits worker.splits if_splits prod.splits)
next
  case (SendPage i)
  with assms ws [of i] show ?thesis
    by (auto simp: depths_within_def goto_def
             intro!: list_all_update
             split: option.splits worker.splits if_splits prod.splits)
next
  case (Enqueue i)
  with assms ws [of i] show ?thesis
    by (auto simp: depths_within_def goto_def
             intro!: list_all_update
             split: option.splits worker.splits if_splits list.splits)
qed
qed

lemma depths_within_run:
  "depths_within a s \<Longrightarrow> run a s es = Some s' \<Longrightarrow> depths_within a s'"
proof (induction es arbitrary: s)
  case Nil
  then show ?case by simp
next
  case (Cons e es)
  then show ?case by (auto split: option.splits dest: depths_within_step)
qed

lemma count_split:
  "i < length ws \<Longrightarrow> length (filter P ws) = others P ws i + (if P (ws ! i) then 1 else 0)"
proof -
  assume "i < length ws"
  then have "ws = take i ws @ ws ! i # drop (Suc i) ws" by (rule id_take_nth_drop)
  then have "length (filter P ws) = length (filter P (take i ws @ ws ! i # drop (Suc i) ws))"
    by simp
  then show ?thesis by (simp add: others_def)
qed

lemma count_update:
  "i < length ws \<Longrightarrow> length (filter P (ws[i := w])) = others P ws i + (if P w then 1 else 0)"
  by (simp add: upd_conv_take_nth_drop others_def)

lemma workerAt_on_seed:
  "workerAt s i = Some w \<Longrightarrow> list_all (worker_on_seed u) (workers s) \<Longrightarrow> worker_on_seed u w"
  by (auto simp: list_all_iff dest: workerAt_mem)

lemma seed_only_init: "seed_only a (init a)"
  by (simp add: seed_only_def init_def pending_def list_all_iff)

lemma goto_fields:
  "urlChan (goto s i w) = urlChan s" "fetched (goto s i w) = fetched s"
  "seeded (goto s i w) = seeded s" "workers (goto s i w) = (workers s)[i := w]"
  by (simp_all add: goto_def)

lemma seed_only_goto:
  assumes "seed_only a s" and "i < length (workers s)"
    and "worker_on_seed (startURL a) w"
    and "before_fetch w \<longrightarrow> before_fetch (workers s ! i)"
  shows "seed_only a (goto s i w)"
  using assms count_split [OF assms(2), of before_fetch] count_update [OF assms(2), of before_fetch w]
  by (auto simp: seed_only_def pending_def goto_fields intro!: list_all_update split: if_splits)

lemma seed_only_step:
  assumes "maxDepth a \<le> 0" and "seed_only a s" and "step a s e = Some s'"
  shows "seed_only a s'"
proof -
  have on_seed: "worker_on_seed (startURL a) (workers s ! i)" if "i < length (workers s)" for i
    using assms(2) that by (simp add: seed_only_def list_all_length)
  show ?thesis
  proof (cases e)
    case Seed
    with assms show ?thesis by (auto simp: seed_only_def pending_def split: if_splits)
  next
    case CloseUrlChan
    with assms show ?thesis by (auto simp: seed_only_def pending_def split: if_splits)
  next
    case Cancel
    with assms show ?thesis by (auto simp: seed_only_def pending_def)
  next
    case ReadPage
    with assms show ?thesis by (auto simp: seed_only_def pending_def split: list.splits)
  next
    case ReadError
    with assms show ?thesis by (auto simp: seed_only_def pending_def split: list.splits)
  next
    case (Receive i)
    with assms(3) obtain t rest where il: "i < length (workers s)"
      and w: "workers s ! i = Receiving" and q: "urlChan s = t # rest"
      and s': "s' = goto (s\<lparr>urlChan := rest\<rparr>) i (Received t)"
      by (auto simp: workerAt_def split: if_splits worker.splits list.splits)
    from assms(2) q have t: "t = (startURL a, 0)" by (simp add: seed_only_def)
    show ?thesis
      using assms(2) q w t count_split [OF il, of before_fetch]
        count_update [OF il, of before_fetch "Received t"]
      unfolding s'
      by (auto simp: seed_only_def pending_def goto_fields intro!: list_all_update split: if_splits)
  next
    case (ReceiveClosed i)
    with assms(3) have il: "i < length (workers s)" and s': "s' = goto s i Exited"
      by (auto simp: workerAt_def split: if_splits worker.splits list.splits)
    show ?thesis unfolding s' by (rule seed_only_goto [OF assms(2) il]) simp_all
  next
    case (CtxDone i)
    with assms(3) have il: "i < length (workers s)" and s': "s' = goto s i Exited"
      by (auto simp: workerAt_def split: if_splits worker.splits)
    show ?thesis unfolding s' by (rule seed_only_goto [OF assms(2) il]) simp_all
  next
    case (CheckVisited i)
    with assms(3) obtain t where il: "i < length (workers s)" and w: "workers s ! i = Received t"
      and s': "s' = goto s i Receiving \<or> s' = goto s i (Unvisited t)"
      by (auto simp: workerAt_def split: if_splits worker.splits)
    from on_seed [OF il] w s' show ?thesis
      by (auto intro!: seed_only_goto [OF assms(2) il])
  next
    case (MarkVisited i)
    with assms(3) obtain t where il: "i < length (workers s)" and w: "workers s ! i = Unvisited t"
      and s': "s' = goto (s\<lparr>visited := insert (fst t) (visited s)\<rparr>) i (Claimed t)"
      by (auto simp: workerAt_def split: if_splits worker.splits)
    have v: "seed_only a (s\<lparr>visited := insert (fst t) (visited s)\<rparr>)"
      using assms(2) by (simp add: seed_only_def pending_def)
    from on_seed [OF il] w show ?thesis
      unfolding s' by (intro seed_only_goto [OF v]) (simp_all add: il)
  next
    case (CheckRobots i ok)
    with assms(3) obtain t where il: "i < length (workers s)" and w: "workers s ! i = Claimed t"
      and s': "s' = goto s i Receiving \<or> s' = goto s i (Fetching t)"
      by (auto simp: workerAt_def split: if_splits worker.splits)
    from on_seed [OF il] w s' show ?thesis
      by (auto intro!: seed_only_goto [OF assms(2) il])
  next
    case (Fetch i result)
    with assms(3) obtain t w' where il: "i < length (workers s)" and w: "workers s ! i = Fetching t"
      and s': "s' = goto (s\<lparr>fetched := fetched s @ [fst t]\<rparr>) i w'"
      and w': "w' = SendingError t \<or> (\<exists>links. w' = SendingPage t links)"
      by (auto simp: workerAt_def split: if_splits worker.splits sum.splits)
    from on_seed [OF il] w have t: "t = (startURL a, 0)" by simp
    show ?thesis
      using assms(2) w w' t count_split [OF il, of before_fetch]
        count_update [OF il, of before_fetch w']
      unfolding s'
      by (auto simp: seed_only_def pending_def goto_fields intro!: list_all_update split: if_splits)
  next
    case (SendError i)
    with assms(3) obtain t where il: "i < length (workers s)" and w: "workers s ! i = SendingError t"
      and s': "s' = goto (s\<lparr>errorChan := errorChan s @ [fst t]\<rparr>) i Receiving"
      by (auto simp: workerAt_def split: if_splits worker.splits)
    have v: "seed_only a (s\<lparr>errorChan := errorChan s @ [fst t]\<rparr>)"
      using assms(2) by (simp add: seed_only_def pending_def)
    show ?thesis unfolding s' by (intro seed_only_goto [OF v]) (simp_all add: il)
  next
    case (SendPage i)
    with assms(3) obtain t links w' where il: "i < length (workers s)"
      and w: "workers s ! i = SendingPage t links"
      and s': "s' = goto (s\<lparr>pageChan := pageChan s @ [t]\<rparr>) i w'"
      and w': "w' = (if snd t < maxDepth a \<and> links \<noteq> [] then Enqueuing (snd t) links else Receiving)"
      by (auto simp: workerAt_def split: if_splits worker.splits)
    from on_seed [OF il] w have "t = (startURL a, 0)" by simp
    with w' assms(1) have w'': "w' = Receiving" by simp
    have v: "seed_only a (s\<lparr>pageChan := pageChan s @ [t]\<rparr>)"
      using assms(2) by (simp add: seed_only_def pending_def)
    show ?thesis unfolding s' w'' by (intro seed_only_goto [OF v]) (simp_all add: il)
  next
    case (Enqueue i)
    with assms(3) obtain depth links where il: "i < length (workers s)"
      and w: "workers s ! i = Enqueuing depth links"
      by (auto simp: workerAt_def split: if_splits worker.splits list.splits)
    with on_seed [OF il] show ?thesis by simp
  qed
qed

lemma seed_only_run:
  "maxDepth a \<le> 0 \<Longrightarrow> seed_only a s \<Longrightarrow> run a s es = Some s' \<Longrightarrow> seed_only a s'"
proof (induction es arbitrary: s)
  case Nil
  then show ?case by simp
next
  case (Cons e es)
  then show ?case by (auto split: option.splits dest: seed_only_step)
qed

lemma seed_only_fetched:
  assumes "seed_only a s"
  shows "fetched s = [] \<or> fetched s = [startURL a]"
proof -
  from assms have "length (fetched s) \<le> 1" and "list_all (\<lambda>u. u = startURL a) (fetched s)"
    by (auto simp: seed_only_def pending_def split: if_splits)
  then show ?thesis by (cases "fetched s") (auto simp: list_all_iff)
qed

text \<open>
  C3, as stated, fails for a negative maximal depth (the \<^verbatim>\<open>--depth\<close> flag accepts one): the seed
  is queued at depth 0 whatever the maximal depth is, and a worker processes and fetches it.
\<close>

theorem negative_maxDepth_seed_processed:
  "map_option (\<lambda>s. (workers s, fetched s))
     (run negativeDepth (init negativeDepth)
        [Seed, Receive 0, CheckVisited 0, MarkVisited 0, CheckRobots 0 True, Fetch 0 (Inr [aboutURL])])
     = Some ([SendingPage (seedURL, 0) [aboutURL]], [seedURL])
   \<and> \<not> (0 \<le> maxDepth negativeDepth)"
  by code_simp

text \<open>
  C3, amended. In every state a crawl can reach: every target, queued or held by a worker,
  has a depth of at most the maximal depth, or of 0 when the maximal depth is negative; a
  worker is in the loop that sends links only for a page whose depth is below the maximal
  depth, and a worker about to deliver a page at the maximal depth or deeper goes back to
  receiving and leaves the queue as it is; and with a maximal depth of 0 (or below) no page
  but the seed is fetched, and the seed at most once, whatever links its page has.
\<close>

theorem crawl_depth_bounded:
  "run a (init a) schedule = Some s \<longrightarrow>
     (\<forall>t \<in> set (urlChan s). snd t \<le> max 0 (maxDepth a))
     \<and> (\<forall>w \<in> set (workers s). \<forall>t. processing w = Some t \<longrightarrow> snd t \<le> max 0 (maxDepth a))
     \<and> (\<forall>w \<in> set (workers s). \<forall>depth links. w = Enqueuing depth links \<longrightarrow> depth < maxDepth a)
     \<and> (\<forall>i url depth links s'.
           workerAt s i = Some (SendingPage (url, depth) links) \<and> maxDepth a \<le> depth
             \<and> step a s (SendPage i) = Some s'
           \<longrightarrow> workerAt s' i = Some Receiving \<and> urlChan s' = urlChan s)
     \<and> (maxDepth a \<le> 0 \<longrightarrow> fetched s = [] \<or> fetched s = [startURL a])"
proof
  assume r: "run a (init a) schedule = Some s"
  from depths_within_run [OF depths_within_init r]
  have q: "\<forall>t \<in> set (urlChan s). snd t \<le> max 0 (maxDepth a)"
    and w: "\<forall>w \<in> set (workers s). worker_within (maxDepth a) w"
    by (auto simp: depths_within_def list_all_iff)
  have p: "\<forall>w \<in> set (workers s). \<forall>t. processing w = Some t \<longrightarrow> snd t \<le> max 0 (maxDepth a)"
  proof (intro ballI allI impI)
    fix w t
    assume "w \<in> set (workers s)" and "processing w = Some t"
    with w show "snd t \<le> max 0 (maxDepth a)" by (cases w) auto
  qed
  have e: "\<forall>w \<in> set (workers s). \<forall>depth links. w = Enqueuing depth links \<longrightarrow> depth < maxDepth a"
    using w by auto
  have f: "\<forall>i url depth links s'.
           workerAt s i = Some (SendingPage (url, depth) links) \<and> maxDepth a \<le> depth
             \<and> step a s (SendPage i) = Some s'
           \<longrightarrow> workerAt s' i = Some Receiving \<and> urlChan s' = urlChan s"
    by (auto simp: workerAt_def goto_def split: if_splits)
  have z: "maxDepth a \<le> 0 \<longrightarrow> fetched s = [] \<or> fetched s = [startURL a]"
    using seed_only_run [OF _ seed_only_init r] seed_only_fetched by blast
  from q p e f z show "(\<forall>t \<in> set (urlChan s). snd t \<le> max 0 (maxDepth a))
     \<and> (\<forall>w \<in> set (workers s). \<forall>t. processing w = Some t \<longrightarrow> snd t \<le> max 0 (maxDepth a))
     \<and> (\<forall>w \<in> set (workers s). \<forall>depth links. w = Enqueuing depth links \<longrightarrow> depth < maxDepth a)
     \<and> (\<forall>i url depth links s'.
           workerAt s i = Some (SendingPage (url, depth) links) \<and> maxDepth a \<le> depth
             \<and> step a s (SendPage i) = Some s'
           \<longrightarrow> workerAt s' i = Some Receiving \<and> urlChan s' = urlChan s)
     \<and> (maxDepth a \<le> 0 \<longrightarrow> fetched s = [] \<or> fetched s = [startURL a])"
    by blast
qed

lemma seedPage_run: "run zeroDepth (init zeroDepth) seedPageSchedule = Some seedPageFetched"
  by code_simp

lemma seedPage_send: "step zeroDepth seedPageFetched (SendPage 1) = Some seedPageSent"
  by code_simp

theorem crawl_depth_bounded_witness:
  "run zeroDepth (init zeroDepth) seedPageSchedule = Some seedPageFetched
   \<and> maxDepth zeroDepth \<le> 0
   \<and> workerAt seedPageFetched 1
       = Some (SendingPage (seedURL, 0) [aboutURL, ''https://example.com/b'', ''https://example.com/c''])
   \<and> step zeroDepth seedPageFetched (SendPage 1) = Some seedPageSent
   \<and> workerAt seedPageSent 1 = Some Receiving
   \<and> urlChan seedPageSent = urlChan seedPageFetched
   \<and> fetched seedPageFetched = [startURL zeroDepth]
   \<and> (0::int) \<le> max 0 (maxDepth zeroDepth)"
proof -
  have m: "maxDepth zeroDepth \<le> 0" by (simp add: zeroDepth_def)
  have at: "workerAt seedPageFetched 1
       = Some (SendingPage (seedURL, 0) [aboutURL, ''https://example.com/b'', ''https://example.com/c''])"
    by (simp add: workerAt_def seedPageFetched_def)
  have nonempty: "fetched seedPageFetched \<noteq> []" by (simp add: seedPageFetched_def)
  note c = crawl_depth_bounded [of zeroDepth seedPageSchedule seedPageFetched, THEN mp, OF seedPage_run]
  note inv = c [THEN conjunct2, THEN conjunct2, THEN conjunct2, THEN conjunct1, rule_format,
      of 1 seedURL 0 "[aboutURL, ''https://example.com/b'', ''https://example.com/c'']" seedPageSent]
  note one = c [THEN conjunct2, THEN conjunct2, THEN conjunct2, THEN conjunct2, rule_format]
  from inv at m seedPage_send
  have "workerAt seedPageSent 1 = Some Receiving \<and> urlChan seedPageSent = urlChan seedPageFetched"
    by simp
  moreover from one m nonempty have "fetched seedPageFetched = [startURL zeroDepth]" by simp
  ultimately show ?thesis using seedPage_run seedPage_send at m by simp
qed

text \<open>
  C4: the claim fails on the code. The read of \<^verbatim>\<open>visited\<close> is under \<^verbatim>\<open>RLock\<close> and the write under
  a separate \<^verbatim>\<open>Lock\<close>, so two workers that received the same URL can both pass the check
  before either marks it. In the schedule below the seed page links twice to one URL, two
  workers receive the two queue entries, and both fetch it.
\<close>

theorem same_url_fetched_twice:
  "map_option fetched (run twoWorkers (init twoWorkers) racingSchedule)
     = Some [seedURL, aboutURL, aboutURL]"
  by code_simp

end
